theory Spec2Isabelle
  imports Complex_Main "HOL-Library.Multiset"
begin

section \<open>Advanced control scheduling: data model\<close>

text \<open>
  The development follows \<^verbatim>\<open>src/control/control.py\<close>. Python floats are read as
  real numbers: rounding, overflow and NaN are outside the model. The numbers that the
  examples compute with (0, 0.5, 1, 2, 3, 5, 7, 10 and powers of 0.5) are exactly
  representable in binary floating point, and so are their sums and products below.
  Python integers are \<open>int\<close>; counts that the sampler provides (batch sizes,
  layer positions) are \<open>nat\<close>.
\<close>

subsection \<open>Errors\<close>

text \<open>Every exception the modelled code can raise is a value of this type.\<close>

datatype error = IndexError | KeyError | AttributeError | TypeError
  | ZeroDivisionError | RuntimeError

definition ebind :: "error + 'a \<Rightarrow> ('a \<Rightarrow> error + 'b) \<Rightarrow> error + 'b" where
  "ebind m f = (case m of Inl e \<Rightarrow> Inl e | Inr a \<Rightarrow> f a)"

text \<open>A \<^verbatim>\<open>for\<close> loop whose body may raise: the first exception ends the loop.\<close>

fun efold :: "('b \<Rightarrow> 'a \<Rightarrow> error + 'a) \<Rightarrow> 'b list \<Rightarrow> 'a \<Rightarrow> error + 'a" where
  "efold f [] a = Inr a"
| "efold f (x # xs) a = (case f x a of Inl e \<Rightarrow> Inl e | Inr a' \<Rightarrow> efold f xs a')"

subsection \<open>Tensors\<close>

text \<open>
  A tensor is its element type and its entries along the first (batch) dimension, each
  entry flattened to the list of its numbers. Only what the scheduler does with a tensor
  is modelled: reading its first size, scaling one entry or all of them, adding two
  tensors of one shape, and changing the element type.
\<close>

datatype dtype = float16 | bfloat16 | float32 | float64

record tensor =
  t_dtype :: dtype
  t_data :: "real list list"

text \<open>Python and torch indexing: a negative index counts from the end; outside
  \<open>-n \<le> i < n\<close> the access raises \<^verbatim>\<open>IndexError\<close>.\<close>

definition py_index :: "nat \<Rightarrow> int \<Rightarrow> error + nat" where
  "py_index n i =
     (if 0 \<le> i \<and> i < int n then Inr (nat i)
      else if - int n \<le> i \<and> i < 0 then Inr (nat (int n + i))
      else Inl IndexError)"

text \<open>\<^verbatim>\<open>x[k] = x[k] * s\<close>\<close>

definition scale_slot :: "tensor \<Rightarrow> int \<Rightarrow> real \<Rightarrow> error + tensor" where
  "scale_slot x k s =
     (case py_index (length (t_data x)) k of
        Inl e \<Rightarrow> Inl e
      | Inr j \<Rightarrow> Inr (x\<lparr>t_data := (t_data x)[j := map (\<lambda>v. v * s) (t_data x ! j)]\<rparr>))"

text \<open>\<^verbatim>\<open>x *= s\<close> and \<^verbatim>\<open>x[:] *= s\<close>\<close>

definition scale_all :: "tensor \<Rightarrow> real \<Rightarrow> tensor" where
  "scale_all x s = x\<lparr>t_data := map (map (\<lambda>v. v * s)) (t_data x)\<rparr>"

text \<open>\<^verbatim>\<open>a += b\<close> on tensors of one shape. Broadcasting between different shapes is
  not modelled: the model reports it as \<^verbatim>\<open>RuntimeError\<close>, which is what torch does
  whenever \<open>b\<close> cannot be broadcast to the shape of \<open>a\<close>.\<close>

definition tensor_iadd :: "tensor \<Rightarrow> tensor \<Rightarrow> error + tensor" where
  "tensor_iadd a b =
     (if map length (t_data a) = map length (t_data b)
      then Inr (a\<lparr>t_data := map2 (map2 (+)) (t_data a) (t_data b)\<rparr>)
      else Inl RuntimeError)"

text \<open>\<^verbatim>\<open>x.to(dtype)\<close>: the rounding of the entries is outside the model.\<close>

definition tensor_to :: "tensor \<Rightarrow> dtype \<Rightarrow> tensor" where
  "tensor_to x d = x\<lparr>t_dtype := d\<rparr>"

subsection \<open>Weight profiles\<close>

datatype ControlWeightType = DEFAULT | UNIVERSAL | T2IADAPTER | CONTROLNET
  | CONTROLLORA | CONTROLLLLITE

record ControlWeights =
  cw_weight_type :: ControlWeightType
  cw_base_multiplier :: real
  cw_flip_weights :: bool
  cw_weights :: "real list option"
  cw_weight_mask :: "tensor option"

text \<open>\<^verbatim>\<open>ControlWeights.__init__\<close>: a given weight list is reversed when
  \<^verbatim>\<open>flip_weights\<close> is set.\<close>

definition ControlWeights_init ::
  "ControlWeightType \<Rightarrow> real \<Rightarrow> bool \<Rightarrow> real list option \<Rightarrow> tensor option \<Rightarrow> ControlWeights" where
  "ControlWeights_init wt bm flip ws wm =
     \<lparr>cw_weight_type = wt, cw_base_multiplier = bm, cw_flip_weights = flip,
      cw_weights = (case ws of None \<Rightarrow> None
                    | Some l \<Rightarrow> if flip then Some (rev l) else Some l),
      cw_weight_mask = wm\<rparr>"

text \<open>\<^verbatim>\<open>ControlWeights.get\<close>: the weight-mask branch is a placeholder that does
  nothing; a weight list is indexed (the positions asked for are never negative), and
  without a list the weight is 1.\<close>

definition ControlWeights_get :: "ControlWeights \<Rightarrow> nat \<Rightarrow> error + real" where
  "ControlWeights_get w idx =
     (case cw_weights w of
        None \<Rightarrow> Inr 1
      | Some ws \<Rightarrow> if idx < length ws then Inr (ws ! idx) else Inl IndexError)"

definition ControlWeights_default :: ControlWeights where
  "ControlWeights_default = ControlWeights_init DEFAULT 1 False None None"

definition ControlWeights_universal :: "real \<Rightarrow> bool \<Rightarrow> ControlWeights" where
  "ControlWeights_universal bm flip = ControlWeights_init UNIVERSAL bm flip None None"

definition or_ones :: "nat \<Rightarrow> real list option \<Rightarrow> real list" where
  "or_ones n ws = (case ws of None \<Rightarrow> replicate n 1 | Some l \<Rightarrow> l)"

definition ControlWeights_t2iadapter :: "real list option \<Rightarrow> bool \<Rightarrow> ControlWeights" where
  "ControlWeights_t2iadapter ws flip =
     ControlWeights_init T2IADAPTER 1 flip (Some (or_ones 12 ws)) None"

definition ControlWeights_controlnet :: "real list option \<Rightarrow> bool \<Rightarrow> ControlWeights" where
  "ControlWeights_controlnet ws flip =
     ControlWeights_init CONTROLNET 1 flip (Some (or_ones 13 ws)) None"

definition ControlWeights_controllora :: "real list option \<Rightarrow> bool \<Rightarrow> ControlWeights" where
  "ControlWeights_controllora ws flip =
     ControlWeights_init CONTROLLORA 1 flip (Some (or_ones 10 ws)) None"

definition ControlWeights_controllllite :: "real list option \<Rightarrow> bool \<Rightarrow> ControlWeights" where
  "ControlWeights_controllllite ws flip =
     ControlWeights_init CONTROLLLLITE 1 flip (Some (or_ones 200 ws)) None"

subsection \<open>Keyframes and keyframe groups\<close>

record LatentKeyframe =
  lk_batch_index :: int
  lk_strength :: real

text \<open>A group object has the single attribute \<^verbatim>\<open>keyframes\<close>, a list; the group is
  modelled as that list.\<close>

type_synonym LatentKeyframeGroup = "LatentKeyframe list"

datatype StrengthInterpolation = LINEAR | EASE_IN | EASE_OUT | EASE_IN_OUT | NONE

record TimestepKeyframe =
  tk_start_percent :: real
  tk_start_t :: real
  tk_strength :: real
  tk_interpolation :: StrengthInterpolation
  tk_control_weights :: "ControlWeights option"
  tk_latent_keyframes :: "LatentKeyframeGroup option"
  tk_null_latent_kf_strength :: real
  tk_inherit_missing :: bool
  tk_guarantee_usage :: bool
  tk_mask_hint_orig :: "tensor option"

type_synonym TimestepKeyframeGroup = "TimestepKeyframe list"

text \<open>\<^verbatim>\<open>TimestepKeyframe.default()\<close>, that is \<^verbatim>\<open>TimestepKeyframe(0.0)\<close>.\<close>

definition TimestepKeyframe_default :: TimestepKeyframe where
  "TimestepKeyframe_default =
     \<lparr>tk_start_percent = 0, tk_start_t = 9999999999 / 10, tk_strength = 1,
      tk_interpolation = NONE, tk_control_weights = None, tk_latent_keyframes = None,
      tk_null_latent_kf_strength = 0, tk_inherit_missing = True,
      tk_guarantee_usage = True, tk_mask_hint_orig = None\<rparr>"

text \<open>
  \<^verbatim>\<open>add\<close> is written twice in the source, once per group class, with the same body up
  to the key. The scan replaces the first entry that has the key of the new keyframe and
  reports whether it did; otherwise the keyframe is appended; then the list is sorted by
  key with a stable sort, as \<^verbatim>\<open>list.sort\<close> is.
\<close>

fun add_scan :: "('a \<Rightarrow> 'k) \<Rightarrow> 'a \<Rightarrow> 'a list \<Rightarrow> 'a list \<times> bool" where
  "add_scan key k [] = ([], False)"
| "add_scan key k (x # xs) =
     (if key x = key k then (k # xs, True)
      else (case add_scan key k xs of (ys, added) \<Rightarrow> (x # ys, added)))"

definition group_add :: "('a \<Rightarrow> 'k::linorder) \<Rightarrow> 'a \<Rightarrow> 'a list \<Rightarrow> 'a list" where
  "group_add key k ks =
     (case add_scan key k ks of
        (ys, added) \<Rightarrow> sort_key key (if \<not> added then ys @ [k] else ys))"

definition LatentKeyframeGroup_add ::
  "LatentKeyframeGroup \<Rightarrow> LatentKeyframe \<Rightarrow> LatentKeyframeGroup" where
  "LatentKeyframeGroup_add ks k = group_add lk_batch_index k ks"

definition TimestepKeyframeGroup_add ::
  "TimestepKeyframeGroup \<Rightarrow> TimestepKeyframe \<Rightarrow> TimestepKeyframeGroup" where
  "TimestepKeyframeGroup_add ks k = group_add tk_start_percent k ks"

text \<open>\<^verbatim>\<open>TimestepKeyframeGroup()\<close> and \<^verbatim>\<open>TimestepKeyframeGroup.default(keyframe)\<close>\<close>

definition TimestepKeyframeGroup_init :: TimestepKeyframeGroup where
  "TimestepKeyframeGroup_init = [TimestepKeyframe_default]"

definition TimestepKeyframeGroup_default :: "TimestepKeyframe \<Rightarrow> TimestepKeyframeGroup" where
  "TimestepKeyframeGroup_default keyframe = TimestepKeyframeGroup_init[0 := keyframe]"

text \<open>\<^verbatim>\<open>get_index\<close>: the list is indexed the Python way, and only the
  \<^verbatim>\<open>IndexError\<close> of an index outside \<open>-n \<le> i < n\<close> is turned into \<^verbatim>\<open>None\<close>.\<close>

definition group_get_index :: "'a list \<Rightarrow> int \<Rightarrow> 'a option" where
  "group_get_index ks index =
     (case py_index (length ks) index of Inl e \<Rightarrow> None | Inr j \<Rightarrow> Some (ks ! j))"

definition LatentKeyframeGroup_get_index ::
  "LatentKeyframeGroup \<Rightarrow> int \<Rightarrow> LatentKeyframe option" where
  "LatentKeyframeGroup_get_index ks index = group_get_index ks index"

definition TimestepKeyframeGroup_get_index ::
  "TimestepKeyframeGroup \<Rightarrow> int \<Rightarrow> TimestepKeyframe option" where
  "TimestepKeyframeGroup_get_index ks index = group_get_index ks index"

definition TimestepKeyframeGroup_has_index :: "TimestepKeyframeGroup \<Rightarrow> int \<Rightarrow> bool" where
  "TimestepKeyframeGroup_has_index ks index \<longleftrightarrow> index \<ge> 0 \<and> index < int (length ks)"

subsection \<open>The controller state\<close>

text \<open>
  The four classes that mix \<^verbatim>\<open>AdvancedControlBase\<close> in. They differ, as far as the
  scheduler goes, in their default weights and in \<^verbatim>\<open>get_universal_weights\<close>.
\<close>

datatype variant = ControlNetAdvanced | T2IAdapterAdvanced | ControlLoraAdvanced
  | ControlLLLiteAdvanced

text \<open>
  The attributes of an \<^verbatim>\<open>AdvancedControlBase\<close> object, with \<^verbatim>\<open>strength\<close> and
  \<^verbatim>\<open>global_average_pooling\<close> of the \<^verbatim>\<open>ControlBase\<close> it extends. The attribute
  \<^verbatim>\<open>t\<close> is named \<open>self_t\<close>. The upstream node \<^verbatim>\<open>previous_controlnet\<close> is an
  object of the host application and is passed to the operations that call it.
\<close>

record acb =
  variant :: variant
  strength :: real
  global_average_pooling :: bool
  mask_cond_hint_original :: "tensor option"
  mask_cond_hint :: "tensor option"
  tk_mask_cond_hint_original :: "tensor option"
  tk_mask_cond_hint :: "tensor option"
  weight_mask_cond_hint :: "tensor option"
  sub_idxs :: "int list option"
  full_latent_length :: int
  context_length :: int
  self_t :: "real list option"
  batched_number :: "nat option"
  weights :: "ControlWeights option"
  weights_default :: ControlWeights
  weights_override :: "ControlWeights option"
  latent_keyframes :: "LatentKeyframeGroup option"
  latent_keyframe_override :: "LatentKeyframeGroup option"
  timestep_keyframes :: TimestepKeyframeGroup
  current_timestep_keyframe :: "TimestepKeyframe option"
  current_timestep_index :: int
  next_timestep_keyframe :: "TimestepKeyframe option"

subsection \<open>Universal weights\<close>

text \<open>\<^verbatim>\<open>base_multiplier ** float(n - i)\<close> has a whole, non-negative exponent: it is
  the power \<open>m ^ (n - i)\<close>, also for \<open>m \<le> 0\<close> (and \<open>0 ** 0.0 = 1\<close>).\<close>

definition ControlNetAdvanced_get_universal_weights :: "ControlWeights \<Rightarrow> ControlWeights" where
  "ControlNetAdvanced_get_universal_weights w =
     (let raw_weights = map (\<lambda>i. cw_base_multiplier w ^ (12 - i)) [0..<13]
      in ControlWeights_controlnet (Some raw_weights) (cw_flip_weights w))"

definition get_properly_arranged_t2i_weights :: "real list \<Rightarrow> real list" where
  "get_properly_arranged_t2i_weights initial_weights =
     replicate 3 (initial_weights ! 0) @ replicate 3 (initial_weights ! 1)
     @ replicate 3 (initial_weights ! 2) @ replicate 3 (initial_weights ! 3)"

definition T2IAdapterAdvanced_get_universal_weights :: "ControlWeights \<Rightarrow> ControlWeights" where
  "T2IAdapterAdvanced_get_universal_weights w =
     (let raw8 = map (\<lambda>i. cw_base_multiplier w ^ (7 - i)) [0..<8];
          raw4 = [raw8 ! 0, raw8 ! 5, raw8 ! 6, raw8 ! 7]
      in ControlWeights_t2iadapter (Some (get_properly_arranged_t2i_weights raw4))
           (cw_flip_weights w))"

definition ControlLoraAdvanced_get_universal_weights :: "ControlWeights \<Rightarrow> ControlWeights" where
  "ControlLoraAdvanced_get_universal_weights w =
     (let raw_weights = map (\<lambda>i. cw_base_multiplier w ^ (9 - i)) [0..<10]
      in ControlWeights_controllora (Some raw_weights) (cw_flip_weights w))"

text \<open>The method as dispatched on the class; the LLLite class keeps the base method,
  which returns \<^verbatim>\<open>self.weights\<close>.\<close>

definition get_universal_weights :: "variant \<Rightarrow> ControlWeights \<Rightarrow> ControlWeights" where
  "get_universal_weights v w =
     (case v of
        ControlNetAdvanced \<Rightarrow> ControlNetAdvanced_get_universal_weights w
      | T2IAdapterAdvanced \<Rightarrow> T2IAdapterAdvanced_get_universal_weights w
      | ControlLoraAdvanced \<Rightarrow> ControlLoraAdvanced_get_universal_weights w
      | ControlLLLiteAdvanced \<Rightarrow> w)"

definition prepare_weights :: "acb \<Rightarrow> acb" where
  "prepare_weights self =
     (case weights self of
        None \<Rightarrow> self\<lparr>weights := Some (weights_default self)\<rparr>
      | Some w \<Rightarrow>
          if cw_weight_type w = DEFAULT then self\<lparr>weights := Some (weights_default self)\<rparr>
          else if cw_weight_type w = UNIVERSAL
            then self\<lparr>weights := Some (get_universal_weights (variant self) w)\<rparr>
          else self)"

subsection \<open>Resolving the active timestep keyframe\<close>

text \<open>The body of the loop of \<^verbatim>\<open>prepare_current_timestep\<close> for an entry that
  qualifies: the entry becomes the active one, and each of the three resolved
  attributes is set from it.\<close>

definition adopt_keyframe :: "acb \<Rightarrow> nat \<Rightarrow> TimestepKeyframe \<Rightarrow> acb" where
  "adopt_keyframe self i eval_tk =
     (let s1 = self\<lparr>current_timestep_index := int i,
                     current_timestep_keyframe := Some eval_tk\<rparr>;
          s2 = (case tk_control_weights eval_tk of
                  Some w \<Rightarrow> s1\<lparr>weights := Some w\<rparr>
                | None \<Rightarrow> if \<not> tk_inherit_missing eval_tk
                          then s1\<lparr>weights := Some (weights_default s1)\<rparr> else s1);
          s3 = (case tk_latent_keyframes eval_tk of
                  Some g \<Rightarrow> s2\<lparr>latent_keyframes := Some g\<rparr>
                | None \<Rightarrow> if \<not> tk_inherit_missing eval_tk
                          then s2\<lparr>latent_keyframes := None\<rparr> else s2);
          s4 = (case tk_mask_hint_orig eval_tk of
                  Some m \<Rightarrow> s3\<lparr>tk_mask_cond_hint_original := Some m\<rparr>
                | None \<Rightarrow> if \<not> tk_inherit_missing eval_tk
                          then s3\<lparr>tk_mask_cond_hint_original := None\<rparr> else s3)
      in s4)"

text \<open>The loop \<^verbatim>\<open>for i in range(self.current_timestep_index+1, len(...))\<close>, as a
  recursion over the entries from position \<open>i\<close> on. It ends at the first entry that does
  not qualify, and after an adopted entry with \<^verbatim>\<open>guarantee_usage\<close>.\<close>

fun scan_keyframes :: "real \<Rightarrow> nat \<Rightarrow> TimestepKeyframe list \<Rightarrow> acb \<Rightarrow> acb" where
  "scan_keyframes curr_t i [] self = self"
| "scan_keyframes curr_t i (eval_tk # rest) self =
     (if tk_start_t eval_tk \<ge> curr_t
      then (let self' = adopt_keyframe self i eval_tk
            in if tk_guarantee_usage eval_tk then self'
               else scan_keyframes curr_t (Suc i) rest self')
      else self)"

text \<open>The overrides, applied when the index changed in this call.\<close>

definition apply_overrides :: "int \<Rightarrow> acb \<Rightarrow> acb" where
  "apply_overrides prev_index self =
     (if prev_index \<noteq> current_timestep_index self
      then (let s1 = (case weights_override self of
                        Some w \<Rightarrow> self\<lparr>weights := Some w\<rparr> | None \<Rightarrow> self)
            in case latent_keyframe_override s1 of
                 Some g \<Rightarrow> s1\<lparr>latent_keyframes := Some g\<rparr> | None \<Rightarrow> s1)
      else self)"

text \<open>\<^verbatim>\<open>prepare_current_timestep\<close>. The tensor \<^verbatim>\<open>t\<close> is the list of its
  timesteps, and \<^verbatim>\<open>t[0]\<close> raises on an empty one. The \<^verbatim>\<open>print\<close> is left out.\<close>

definition prepare_current_timestep :: "acb \<Rightarrow> real list \<Rightarrow> nat \<Rightarrow> error + acb" where
  "prepare_current_timestep self tt bn =
     (case tt of
        [] \<Rightarrow> Inl IndexError
      | curr_t # _ \<Rightarrow>
          (let s0 = self\<lparr>self_t := Some tt, batched_number := Some bn\<rparr>;
               prev_index = current_timestep_index s0;
               s1 = (if TimestepKeyframeGroup_has_index (timestep_keyframes s0) (prev_index + 1)
                     then scan_keyframes curr_t (nat (prev_index + 1))
                            (drop (nat (prev_index + 1)) (timestep_keyframes s0)) s0
                     else s0)
           in Inr (prepare_weights (apply_overrides prev_index s1))))"

definition cleanup_advanced :: "acb \<Rightarrow> acb" where
  "cleanup_advanced self =
     self\<lparr>sub_idxs := None, full_latent_length := 0, context_length := 0,
          self_t := None, batched_number := None, weights := None,
          latent_keyframes := None, current_timestep_keyframe := None,
          next_timestep_keyframe := None, current_timestep_index := - 1,
          mask_cond_hint := None, tk_mask_cond_hint_original := None,
          tk_mask_cond_hint := None, weight_mask_cond_hint := None\<rparr>"

text \<open>\<^verbatim>\<open>pre_run_advanced\<close>: every keyframe gets its \<^verbatim>\<open>start_t\<close> from the
  sampler's function, then the per-run state is cleared.\<close>

definition pre_run_advanced :: "(real \<Rightarrow> real) \<Rightarrow> acb \<Rightarrow> acb" where
  "pre_run_advanced percent_to_timestep_function self =
     cleanup_advanced
       (self\<lparr>timestep_keyframes :=
          map (\<lambda>tk. tk\<lparr>tk_start_t := percent_to_timestep_function (tk_start_percent tk)\<rparr>)
            (timestep_keyframes self)\<rparr>)"

subsection \<open>The control structure and the entry point\<close>

record control =
  c_input :: "tensor option list"
  c_middle :: "tensor option list"
  c_output :: "tensor option list"

text \<open>The condition of the early exit of \<^verbatim>\<open>get_control_inject\<close>. Python's
  \<^verbatim>\<open>or\<close> does not look at the keyframe when the node's strength is 0; otherwise
  reading \<^verbatim>\<open>.strength\<close> of a missing keyframe raises.\<close>

definition short_circuit :: "acb \<Rightarrow> error + bool" where
  "short_circuit self =
     (if strength self = 0 then Inr True
      else (case current_timestep_keyframe self of
              None \<Rightarrow> Inl AttributeError
            | Some tk \<Rightarrow> Inr (tk_strength tk = 0)))"

text \<open>
  \<^verbatim>\<open>get_control_inject\<close>. The upstream node, when there is one, is the function
  \<open>previous_controlnet\<close> of the call's arguments; \<open>get_control_advanced\<close> is the
  variant's own computation, which runs the control model. The result is the state
  after the call and the returned structure (\<^verbatim>\<open>None\<close> when there is nothing).
\<close>

definition get_control_inject ::
  "('x \<Rightarrow> real list \<Rightarrow> 'c \<Rightarrow> nat \<Rightarrow> error + control option) option
   \<Rightarrow> (acb \<Rightarrow> 'x \<Rightarrow> real list \<Rightarrow> 'c \<Rightarrow> nat \<Rightarrow> error + acb \<times> control option)
   \<Rightarrow> acb \<Rightarrow> 'x \<Rightarrow> real list \<Rightarrow> 'c \<Rightarrow> nat \<Rightarrow> error + acb \<times> control option" where
  "get_control_inject previous_controlnet get_control_advanced self x_noisy tt cond bn =
     ebind (prepare_current_timestep self tt bn) (\<lambda>self'.
       ebind (short_circuit self') (\<lambda>stop.
         if stop
         then (case previous_controlnet of
                 None \<Rightarrow> Inr (self', None)
               | Some prev_get_control \<Rightarrow>
                   ebind (prev_get_control x_noisy tt cond bn) (\<lambda>control_prev.
                     Inr (self', control_prev)))
         else get_control_advanced self' x_noisy tt cond bn))"

subsection \<open>Strengths and masks on one layer\<close>

text \<open>
  What the host library computes is a parameter: \<open>mask_product x m\<close> stands for
  \<^verbatim>\<open>x[:] * prepare_mask_batch(m, x.shape)\<close> (a bilinear resize of the mask, then an
  element-wise product), and \<open>mean_pool x\<close> for the spatial mean of \<open>x\<close> repeated
  over its spatial extent.
\<close>

record externals =
  mask_product :: "tensor \<Rightarrow> tensor \<Rightarrow> tensor"
  mean_pool :: "tensor \<Rightarrow> tensor"

text \<open>The dictionary built from \<^verbatim>\<open>enumerate(self.sub_idxs)\<close>: a later position
  overwrites an earlier one for the same actual index.\<close>

definition mapped_indeces_of :: "int list \<Rightarrow> (int \<rightharpoonup> int)" where
  "mapped_indeces_of idxs =
     fold (\<lambda>(i, actual) m. m(actual \<mapsto> int i)) (enumerate 0 idxs) Map.empty"

text \<open>\<^verbatim>\<open>for b in range(batched_number): x[(latent_count*b)+real_index] = ... * s\<close>\<close>

definition scale_batched :: "nat \<Rightarrow> nat \<Rightarrow> int \<Rightarrow> real \<Rightarrow> tensor \<Rightarrow> error + tensor" where
  "scale_batched latent_count bn real_index s x =
     efold (\<lambda>b x'. scale_slot x' (int (latent_count * b) + real_index) s) [0..<bn] x"

text \<open>
  One round of the loop over the latent keyframes. The loop carries the tensor and the
  set \<^verbatim>\<open>indeces_to_null\<close>, kept as a duplicate-free list. Without a mapping the
  resolved index is taken out of the set only if it is there, and the strength is
  applied in either case; with a mapping, an index that is not mapped skips the round,
  and taking out an index that is not in the set raises \<^verbatim>\<open>KeyError\<close>.
\<close>

definition latent_keyframe_step ::
  "acb \<Rightarrow> nat \<Rightarrow> nat \<Rightarrow> (int \<rightharpoonup> int) option \<Rightarrow> LatentKeyframe
   \<Rightarrow> tensor \<times> int list \<Rightarrow> error + tensor \<times> int list" where
  "latent_keyframe_step self latent_count bn mapped_indeces keyframe st =
     (case st of (x, indeces_to_null) \<Rightarrow>
        (let r0 = lk_batch_index keyframe;
             real_index = (if r0 < 0
                           then r0 + (if sub_idxs self = None then int latent_count
                                      else full_latent_length self)
                           else r0)
         in case mapped_indeces of
              None \<Rightarrow>
                ebind (scale_batched latent_count bn real_index (lk_strength keyframe) x)
                  (\<lambda>x'. Inr (x', if real_index \<in> set indeces_to_null
                                 then removeAll real_index indeces_to_null
                                 else indeces_to_null))
            | Some m \<Rightarrow>
                (case m real_index of
                   None \<Rightarrow> Inr (x, indeces_to_null)
                 | Some mapped \<Rightarrow>
                     if mapped \<in> set indeces_to_null
                     then ebind (scale_batched latent_count bn mapped (lk_strength keyframe) x)
                            (\<lambda>x'. Inr (x', removeAll mapped indeces_to_null))
                     else Inl KeyError)))"

text \<open>The nulling loop reads \<^verbatim>\<open>self.current_timestep_keyframe.null_latent_kf_strength\<close>
  in every round, after reading the slot.\<close>

definition null_slot :: "acb \<Rightarrow> tensor \<Rightarrow> int \<Rightarrow> error + tensor" where
  "null_slot self x k =
     ebind (py_index (length (t_data x)) k) (\<lambda>_.
       case current_timestep_keyframe self of
         None \<Rightarrow> Inl AttributeError
       | Some tk \<Rightarrow> scale_slot x k (tk_null_latent_kf_strength tk))"

definition null_batched :: "acb \<Rightarrow> nat \<Rightarrow> nat \<Rightarrow> int \<Rightarrow> tensor \<Rightarrow> error + tensor" where
  "null_batched self latent_count bn batch_index x =
     efold (\<lambda>b x'. null_slot self x' (int (latent_count * b) + batch_index)) [0..<bn] x"

text \<open>The first part of \<^verbatim>\<open>apply_advanced_strengths_and_masks\<close>: the latent keyframes.
  The floor division raises for a batched count of 0.\<close>

definition apply_latent_keyframes :: "acb \<Rightarrow> tensor \<Rightarrow> nat \<Rightarrow> error + tensor" where
  "apply_latent_keyframes self x bn =
     (case latent_keyframes self of
        None \<Rightarrow> Inr x
      | Some kfs \<Rightarrow>
          if bn = 0 then Inl ZeroDivisionError
          else
            (let latent_count = length (t_data x) div bn;
                 indeces_to_null = map int [0..<latent_count];
                 mapped_indeces =
                   (case sub_idxs self of
                      None \<Rightarrow> None
                    | Some idxs \<Rightarrow> if idxs = [] then None else Some (mapped_indeces_of idxs))
             in ebind (efold (latent_keyframe_step self latent_count bn mapped_indeces) kfs
                         (x, indeces_to_null))
                  (\<lambda>(x1, nulls). efold (null_batched self latent_count bn) nulls x1)))"

definition apply_masks :: "externals \<Rightarrow> acb \<Rightarrow> tensor \<Rightarrow> tensor" where
  "apply_masks ext self x =
     (let x1 = (case mask_cond_hint self of None \<Rightarrow> x | Some m \<Rightarrow> mask_product ext x m)
      in case tk_mask_cond_hint self of None \<Rightarrow> x1 | Some m \<Rightarrow> mask_product ext x1 m)"

definition apply_keyframe_strength :: "acb \<Rightarrow> tensor \<Rightarrow> error + tensor" where
  "apply_keyframe_strength self x =
     (case current_timestep_keyframe self of
        None \<Rightarrow> Inl AttributeError
      | Some tk \<Rightarrow> if tk_strength tk \<noteq> 1 then Inr (scale_all x (tk_strength tk)) else Inr x)"

definition apply_advanced_strengths_and_masks ::
  "externals \<Rightarrow> acb \<Rightarrow> tensor \<Rightarrow> nat \<Rightarrow> error + tensor" where
  "apply_advanced_strengths_and_masks ext self x bn =
     ebind (apply_latent_keyframes self x bn) (\<lambda>x1.
       apply_keyframe_strength self (apply_masks ext self x1))"

subsection \<open>Merging into the chain\<close>

text \<open>\<^verbatim>\<open>control_merge_inject\<close> passes \<^verbatim>\<open>self.batched_number\<close>, which is
  \<^verbatim>\<open>None\<close> until a timestep was prepared; it is only used when latent keyframes are
  resolved, and \<^verbatim>\<open>x.size(0)//None\<close> raises \<^verbatim>\<open>TypeError\<close>.\<close>

definition apply_with_own_batched_number :: "externals \<Rightarrow> acb \<Rightarrow> tensor \<Rightarrow> error + tensor" where
  "apply_with_own_batched_number ext self x =
     (case batched_number self of
        Some bn \<Rightarrow> apply_advanced_strengths_and_masks ext self x bn
      | None \<Rightarrow> if latent_keyframes self = None
                then apply_advanced_strengths_and_masks ext self x 0
                else Inl TypeError)"

text \<open>What both loops of \<^verbatim>\<open>control_merge_inject\<close> do to the layer at position
  \<open>i\<close>; \<open>pooling\<close> is true in the loop over the output layers, which alone has the
  global average pooling step.\<close>

definition rescale_layer ::
  "externals \<Rightarrow> acb \<Rightarrow> dtype \<Rightarrow> bool \<Rightarrow> nat \<Rightarrow> tensor option \<Rightarrow> error + tensor option" where
  "rescale_layer ext self output_dtype pooling i layer =
     (case layer of
        None \<Rightarrow> Inr None
      | Some x \<Rightarrow>
          ebind (apply_with_own_batched_number ext self x) (\<lambda>x1.
            (let x2 = (if pooling \<and> global_average_pooling self then mean_pool ext x1 else x1)
             in case weights self of
                  None \<Rightarrow> Inl AttributeError
                | Some w \<Rightarrow>
                    ebind (ControlWeights_get w i) (\<lambda>wi.
                      (let x3 = scale_all x2 (strength self * wi)
                       in Inr (Some (if t_dtype x3 \<noteq> output_dtype
                                     then tensor_to x3 output_dtype else x3)))))))"

text \<open>The loop over \<^verbatim>\<open>control_input\<close>: every layer goes to the front of the list.\<close>

definition merge_input_layers ::
  "externals \<Rightarrow> acb \<Rightarrow> dtype \<Rightarrow> tensor option list \<Rightarrow> error + tensor option list" where
  "merge_input_layers ext self output_dtype control_input =
     efold (\<lambda>(i, x) acc. ebind (rescale_layer ext self output_dtype False i x)
                            (\<lambda>x'. Inr (x' # acc)))
       (enumerate 0 control_input) []"

text \<open>The loop over \<^verbatim>\<open>control_output\<close>: the layer at the last position is appended to
  \<^verbatim>\<open>middle\<close>, every other one to \<^verbatim>\<open>output\<close>. The result is the pair of the two
  lists.\<close>

definition merge_output_layers ::
  "externals \<Rightarrow> acb \<Rightarrow> dtype \<Rightarrow> tensor option list
   \<Rightarrow> error + tensor option list \<times> tensor option list" where
  "merge_output_layers ext self output_dtype control_output =
     efold (\<lambda>(i, x) (mid, out).
              ebind (rescale_layer ext self output_dtype True i x)
                (\<lambda>x'. Inr (if i = length control_output - 1
                            then (mid @ [x'], out) else (mid, out @ [x']))))
       (enumerate 0 control_output) ([], [])"

text \<open>One round of the loop over the positions of a list of the previous result.\<close>

definition merge_prev_step ::
  "tensor option list \<Rightarrow> nat \<Rightarrow> tensor option list \<Rightarrow> error + tensor option list" where
  "merge_prev_step prev i o_list =
     (let prev_val = prev ! i
      in if i \<ge> length o_list then Inr (o_list @ [prev_val])
         else (case prev_val of
                 None \<Rightarrow> Inr o_list
               | Some pv \<Rightarrow>
                   (case o_list ! i of
                      None \<Rightarrow> Inr (o_list[i := Some pv])
                    | Some ov \<Rightarrow> ebind (tensor_iadd ov pv)
                                  (\<lambda>sum. Inr (o_list[i := Some sum])))))"

definition merge_prev_list ::
  "tensor option list \<Rightarrow> tensor option list \<Rightarrow> error + tensor option list" where
  "merge_prev_list o_list prev = efold (merge_prev_step prev) [0..<length prev] o_list"

definition merge_prev :: "control \<Rightarrow> control \<Rightarrow> error + control" where
  "merge_prev out control_prev =
     ebind (merge_prev_list (c_input out) (c_input control_prev)) (\<lambda>i'.
       ebind (merge_prev_list (c_middle out) (c_middle control_prev)) (\<lambda>m'.
         ebind (merge_prev_list (c_output out) (c_output control_prev)) (\<lambda>o'.
           Inr \<lparr>c_input = i', c_middle = m', c_output = o'\<rparr>)))"

definition control_merge_inject ::
  "externals \<Rightarrow> acb \<Rightarrow> tensor option list option \<Rightarrow> tensor option list option
   \<Rightarrow> control option \<Rightarrow> dtype \<Rightarrow> error + control" where
  "control_merge_inject ext self control_input control_output control_prev output_dtype =
     ebind (case control_input of
              None \<Rightarrow> Inr []
            | Some li \<Rightarrow> merge_input_layers ext self output_dtype li) (\<lambda>inp.
       ebind (case control_output of
                None \<Rightarrow> Inr ([], [])
              | Some lo \<Rightarrow> merge_output_layers ext self output_dtype lo) (\<lambda>(mid, out).
         (let own = \<lparr>c_input = inp, c_middle = mid, c_output = out\<rparr>
          in case control_prev of
               None \<Rightarrow> Inr own
             | Some p \<Rightarrow> merge_prev own p)))"

subsection \<open>Groups as objects: cloning\<close>

text \<open>
  Whether two groups share their keyframes cannot be seen on lists of values. Here a
  group object and a keyframe object are addresses; the store gives every group its
  list of keyframe addresses and every keyframe address its attributes, and knows the
  next unused address of each kind. The methods are the ones above, with the key of
  an entry read through the store.
\<close>

record 'kf store =
  group_keyframes :: "nat \<Rightarrow> nat list"
  keyframe_at :: "nat \<Rightarrow> 'kf"
  next_group :: nat
  next_keyframe :: nat

text \<open>\<^verbatim>\<open>group.add(keyframe)\<close> on objects: only the list of \<open>g\<close> changes.\<close>

definition obj_add :: "('kf \<Rightarrow> 'k::linorder) \<Rightarrow> nat \<Rightarrow> nat \<Rightarrow> 'kf store \<Rightarrow> 'kf store" where
  "obj_add key g r h =
     h\<lparr>group_keyframes := (group_keyframes h)
          (g := group_add (\<lambda>a. key (keyframe_at h a)) r (group_keyframes h g))\<rparr>"

text \<open>A new group object with the given list.\<close>

definition new_group :: "nat list \<Rightarrow> 'kf store \<Rightarrow> 'kf store \<times> nat" where
  "new_group l h =
     (h\<lparr>group_keyframes := (group_keyframes h)(next_group h := l),
        next_group := Suc (next_group h)\<rparr>, next_group h)"

text \<open>A new keyframe object with the given attributes.\<close>

definition new_keyframe :: "'kf \<Rightarrow> 'kf store \<Rightarrow> 'kf store \<times> nat" where
  "new_keyframe v h =
     (h\<lparr>keyframe_at := (keyframe_at h)(next_keyframe h := v),
        next_keyframe := Suc (next_keyframe h)\<rparr>, next_keyframe h)"

text \<open>\<^verbatim>\<open>LatentKeyframeGroup.clone\<close>: an empty group, to which every keyframe object
  of the original is added.\<close>

definition LatentKeyframeGroup_clone ::
  "nat \<Rightarrow> LatentKeyframe store \<Rightarrow> LatentKeyframe store \<times> nat" where
  "LatentKeyframeGroup_clone g h =
     (case new_group [] h of
        (h1, cloned) \<Rightarrow>
          (fold (\<lambda>tk h'. obj_add lk_batch_index cloned tk h') (group_keyframes h g) h1,
           cloned))"

text \<open>\<^verbatim>\<open>TimestepKeyframeGroup.clone\<close>: the new group starts, as every new timestep
  group does, with a new default keyframe.\<close>

definition TimestepKeyframeGroup_clone ::
  "nat \<Rightarrow> TimestepKeyframe store \<Rightarrow> TimestepKeyframe store \<times> nat" where
  "TimestepKeyframeGroup_clone g h =
     (case new_keyframe TimestepKeyframe_default h of
        (h0, seed) \<Rightarrow>
          (case new_group [seed] h0 of
             (h1, cloned) \<Rightarrow>
               (fold (\<lambda>tk h'. obj_add tk_start_percent cloned tk h') (group_keyframes h g) h1,
                cloned)))"

text \<open>The attributes of the entry at a position of a group, and the assignment
  \<^verbatim>\<open>group[i].strength = s\<close> to an entry of a latent group.\<close>

definition entry :: "'kf store \<Rightarrow> nat \<Rightarrow> nat \<Rightarrow> 'kf" where
  "entry h g i = keyframe_at h (group_keyframes h g ! i)"

definition entries :: "'kf store \<Rightarrow> nat \<Rightarrow> 'kf list" where
  "entries h g = map (keyframe_at h) (group_keyframes h g)"

definition set_entry_strength :: "nat \<Rightarrow> nat \<Rightarrow> real \<Rightarrow> LatentKeyframe store \<Rightarrow> LatentKeyframe store" where
  "set_entry_strength g i s h =
     (let a = group_keyframes h g ! i
      in h\<lparr>keyframe_at := (keyframe_at h)(a := (keyframe_at h a)\<lparr>lk_strength := s\<rparr>)\<rparr>)"

text \<open>The invariant of a group, as the comment on both classes has it (always sorted
  by key) and as \<^verbatim>\<open>add\<close> keeps it: the keys increase strictly along the list.\<close>

definition group_inv :: "('a \<Rightarrow> 'k::linorder) \<Rightarrow> 'a list \<Rightarrow> bool" where
  "group_inv key ks \<longleftrightarrow> sorted_wrt (<) (map key ks)"

text \<open>Three stores with one group (object 0) of one keyframe (object 0): a latent
  keyframe for batch index 0; the default timestep keyframe with strength 2; and a
  timestep keyframe at start percent 0.5, as
  \<^verbatim>\<open>TimestepKeyframeGroup.default(keyframe)\<close> makes it.\<close>

definition one_latent_store :: "LatentKeyframe store" where
  "one_latent_store =
     \<lparr>group_keyframes = (\<lambda>g. [])(0 := [0]),
      keyframe_at = (\<lambda>a. \<lparr>lk_batch_index = 0, lk_strength = 1\<rparr>),
      next_group = 1, next_keyframe = 1\<rparr>"

definition one_timestep_store :: "TimestepKeyframe store" where
  "one_timestep_store =
     \<lparr>group_keyframes = (\<lambda>g. [])(0 := [0]),
      keyframe_at = (\<lambda>a. TimestepKeyframe_default\<lparr>tk_strength := 2\<rparr>),
      next_group = 1, next_keyframe = 1\<rparr>"

definition late_timestep_store :: "TimestepKeyframe store" where
  "late_timestep_store =
     \<lparr>group_keyframes = (\<lambda>g. [])(0 := [0]),
      keyframe_at = (\<lambda>a. TimestepKeyframe_default\<lparr>tk_start_percent := 1/2\<rparr>),
      next_group = 1, next_keyframe = 1\<rparr>"

subsection \<open>Concrete nodes and layers\<close>

text \<open>A layer of two batch entries with two numbers each, all equal to \<open>c\<close>.\<close>

definition const_layer :: "real \<Rightarrow> tensor" where
  "const_layer c = \<lparr>t_dtype = float32, t_data = [[c, c], [c, c]]\<rparr>"

text \<open>A dense-ControlNet node after \<^verbatim>\<open>prepare_current_timestep\<close> with the default
  timeline: strength 1, the unit default weights, no masks, no latent keyframes.\<close>

definition unit_node :: acb where
  "unit_node =
     \<lparr>variant = ControlNetAdvanced, strength = 1, global_average_pooling = False,
      mask_cond_hint_original = None, mask_cond_hint = None,
      tk_mask_cond_hint_original = None, tk_mask_cond_hint = None,
      weight_mask_cond_hint = None, sub_idxs = None, full_latent_length = 0,
      context_length = 0, self_t = Some [999], batched_number = Some 1,
      weights = Some (ControlWeights_controlnet None False),
      weights_default = ControlWeights_controlnet None False, weights_override = None,
      latent_keyframes = None, latent_keyframe_override = None,
      timestep_keyframes = TimestepKeyframeGroup_init,
      current_timestep_keyframe = Some TimestepKeyframe_default,
      current_timestep_index = 0, next_timestep_keyframe = None\<rparr>"

text \<open>The same node with a resolved latent keyframe group; the active keyframe has
  the given strength for the latents that the group leaves out.\<close>

definition latent_node :: "LatentKeyframeGroup \<Rightarrow> real \<Rightarrow> acb" where
  "latent_node kfs null_strength =
     unit_node\<lparr>latent_keyframes := Some kfs,
               current_timestep_keyframe :=
                 Some (TimestepKeyframe_default\<lparr>tk_null_latent_kf_strength := null_strength\<rparr>)\<rparr>"

text \<open>A batch of four latents, one number each.\<close>

definition four_latents :: tensor where
  "four_latents = \<lparr>t_dtype = float32, t_data = [[1], [1], [1], [1]]\<rparr>"

subsection \<open>The merge in the words of the specification\<close>

text \<open>
  The specification describes the merge with the previous result entry by entry: an
  absent previous entry leaves the current one; a present previous entry is adopted
  when the current one is absent, and added to it when both are present. Extra
  entries of the previous list are appended. These two definitions follow that
  description; they are compared below with the loop of the source.
\<close>

definition merged_entry :: "tensor option \<Rightarrow> tensor option \<Rightarrow> error + tensor option" where
  "merged_entry cur prev =
     (case prev of
        None \<Rightarrow> Inr cur
      | Some pv \<Rightarrow>
          (case cur of
             None \<Rightarrow> Inr (Some pv)
           | Some cv \<Rightarrow> ebind (tensor_iadd cv pv) (\<lambda>sum. Inr (Some sum))))"

definition merged_entries ::
  "tensor option list \<Rightarrow> tensor option list \<Rightarrow> tensor option list \<Rightarrow> bool" where
  "merged_entries cur prev m \<longleftrightarrow>
     length m = max (length cur) (length prev)
     \<and> (\<forall>i < length m.
           if i \<ge> length cur then m ! i = prev ! i
           else if i \<ge> length prev then m ! i = cur ! i
           else merged_entry (cur ! i) (prev ! i) = Inr (m ! i))"

subsection \<open>The latent keyframes in the words of the specification\<close>

text \<open>
  Without subset indices a keyframe addresses the slot of its batch index, a negative
  index counting from the end of the \<open>latent_count\<close> latents. A slot that keyframes
  address is multiplied by their strengths, every other slot by the strength for
  unaddressed latents. \<open>scaled_by g d\<close> multiplies entry \<open>k\<close> of the batch by
  \<open>g k\<close>.
\<close>

definition resolve_index :: "nat \<Rightarrow> LatentKeyframe \<Rightarrow> int" where
  "resolve_index latent_count kf =
     (if lk_batch_index kf < 0 then lk_batch_index kf + int latent_count
      else lk_batch_index kf)"

definition slot_factor :: "LatentKeyframeGroup \<Rightarrow> real \<Rightarrow> nat \<Rightarrow> nat \<Rightarrow> real" where
  "slot_factor kfs null_strength latent_count j =
     (if \<exists>kf \<in> set kfs. resolve_index latent_count kf = int j
      then prod_list (map lk_strength
             (filter (\<lambda>kf. resolve_index latent_count kf = int j) kfs))
      else null_strength)"

definition scaled_by :: "(nat \<Rightarrow> real) \<Rightarrow> real list list \<Rightarrow> real list list" where
  "scaled_by g d = map (\<lambda>(k, row). map (\<lambda>v. v * g k) row) (enumerate 0 d)"

text \<open>Stand-ins for the host library's operations, for nodes that have no mask and no
  pooling and so call neither.\<close>

definition plain_externals :: externals where
  "plain_externals = \<lparr>mask_product = (\<lambda>x m. x), mean_pool = (\<lambda>x. x)\<rparr>"

section \<open>Keyframe groups\<close>

subsection \<open>Facts about \<open>add\<close>\<close>

lemma add_scan_length: "length (fst (add_scan key k ks)) = length ks"
  by (induction ks) (auto split: prod.splits)

lemma add_scan_added: "snd (add_scan key k ks) \<longleftrightarrow> (\<exists>x \<in> set ks. key x = key k)"
  by (induction ks) (auto split: prod.splits)

lemma add_scan_mset_found:
  "find (\<lambda>x. key x = key k) ks = Some old \<Longrightarrow>
   mset (fst (add_scan key k ks)) = add_mset k (mset ks - {#old#})"
proof (induction ks)
  case Nil
  then show ?case by simp
next
  case (Cons x xs)
  show ?case
  proof (cases "key x = key k")
    case True
    with Cons.prems show ?thesis by simp
  next
    case False
    with Cons.prems have f: "find (\<lambda>x. key x = key k) xs = Some old" by simp
    then have "old \<in> set xs" by (auto simp: find_Some_iff)
    then have "old \<in># mset xs" by simp
    with False Cons.IH[OF f] show ?thesis
      by (auto split: prod.splits)
  qed
qed

lemma add_scan_not_found:
  "find (\<lambda>x. key x = key k) ks = None \<Longrightarrow> add_scan key k ks = (ks, False)"
  by (induction ks) (auto split: if_splits)

lemma find_key_iff:
  "(find (\<lambda>x. key x = key k) ks = None) \<longleftrightarrow> \<not> (\<exists>x \<in> set ks. key x = key k)"
  by (auto simp: find_None_iff)

lemma group_add_sorted: "sorted (map key (group_add key k ks))"
  by (simp add: group_add_def split: prod.splits)

lemma group_add_found:
  assumes "find (\<lambda>x. key x = key k) ks = Some old"
  shows "length (group_add key k ks) = length ks"
    and "mset (group_add key k ks) = add_mset k (mset ks - {#old#})"
proof -
  obtain ys added where s: "add_scan key k ks = (ys, added)" by (cases "add_scan key k ks")
  from assms have "\<exists>x \<in> set ks. key x = key k"
    using find_key_iff[of key k ks] by auto
  with add_scan_added[of key k ks] s have a: "added" by simp
  from add_scan_length[of key k ks] s have l: "length ys = length ks" by simp
  from add_scan_mset_found[OF assms] s have m: "mset ys = add_mset k (mset ks - {#old#})" by simp
  show "length (group_add key k ks) = length ks"
    by (simp add: group_add_def s a l)
  show "mset (group_add key k ks) = add_mset k (mset ks - {#old#})"
    by (simp add: group_add_def s a m)
qed

lemma group_add_not_found:
  assumes "find (\<lambda>x. key x = key k) ks = None"
  shows "group_add key k ks = sort_key key (ks @ [k])"
  by (simp add: group_add_def add_scan_not_found[OF assms])

text \<open>
  Claim C9. For a latent group (key: batch index) and a timestep group (key: start
  percent) and every keyframe: when the group has an entry with the key of the new
  keyframe, \<open>add\<close> keeps the length and puts the new keyframe in the place of the
  first such entry, the other entries staying as they are; when it has none, the length
  grows by one and the new keyframe joins the entries; in both cases the list is sorted
  by key afterwards.
\<close>

theorem add_replaces_or_inserts:
  "(\<forall>old. find (\<lambda>x. lk_batch_index x = lk_batch_index k) ls = Some old \<longrightarrow>
      length (LatentKeyframeGroup_add ls k) = length ls
      \<and> mset (LatentKeyframeGroup_add ls k) = add_mset k (mset ls - {#old#}))
   \<and> (find (\<lambda>x. lk_batch_index x = lk_batch_index k) ls = None \<longrightarrow>
      length (LatentKeyframeGroup_add ls k) = Suc (length ls)
      \<and> mset (LatentKeyframeGroup_add ls k) = add_mset k (mset ls))
   \<and> sorted (map lk_batch_index (LatentKeyframeGroup_add ls k))
   \<and> (\<forall>old. find (\<lambda>x. tk_start_percent x = tk_start_percent t) ts = Some old \<longrightarrow>
      length (TimestepKeyframeGroup_add ts t) = length ts
      \<and> mset (TimestepKeyframeGroup_add ts t) = add_mset t (mset ts - {#old#}))
   \<and> (find (\<lambda>x. tk_start_percent x = tk_start_percent t) ts = None \<longrightarrow>
      length (TimestepKeyframeGroup_add ts t) = Suc (length ts)
      \<and> mset (TimestepKeyframeGroup_add ts t) = add_mset t (mset ts))
   \<and> sorted (map tk_start_percent (TimestepKeyframeGroup_add ts t))"
  unfolding LatentKeyframeGroup_add_def TimestepKeyframeGroup_add_def
  by (simp add: group_add_found group_add_not_found group_add_sorted)

theorem add_replaces_or_inserts_witness:
  "LatentKeyframeGroup_add
     [\<lparr>lk_batch_index = 0, lk_strength = 2\<rparr>, \<lparr>lk_batch_index = 2, lk_strength = 1/2\<rparr>]
     \<lparr>lk_batch_index = 2, lk_strength = 3\<rparr>
     = [\<lparr>lk_batch_index = 0, lk_strength = 2\<rparr>, \<lparr>lk_batch_index = 2, lk_strength = 3\<rparr>]
   \<and> length (LatentKeyframeGroup_add
     [\<lparr>lk_batch_index = 0, lk_strength = 2\<rparr>, \<lparr>lk_batch_index = 2, lk_strength = 1/2\<rparr>]
     \<lparr>lk_batch_index = 2, lk_strength = 3\<rparr>) = 2
   \<and> LatentKeyframeGroup_add
     [\<lparr>lk_batch_index = 0, lk_strength = 2\<rparr>, \<lparr>lk_batch_index = 2, lk_strength = 1/2\<rparr>]
     \<lparr>lk_batch_index = 1, lk_strength = 3\<rparr>
     = [\<lparr>lk_batch_index = 0, lk_strength = 2\<rparr>, \<lparr>lk_batch_index = 1, lk_strength = 3\<rparr>,
        \<lparr>lk_batch_index = 2, lk_strength = 1/2\<rparr>]
   \<and> length (LatentKeyframeGroup_add
     [\<lparr>lk_batch_index = 0, lk_strength = 2\<rparr>, \<lparr>lk_batch_index = 2, lk_strength = 1/2\<rparr>]
     \<lparr>lk_batch_index = 1, lk_strength = 3\<rparr>) = 3
   \<and> length (TimestepKeyframeGroup_add TimestepKeyframeGroup_init
        (TimestepKeyframe_default\<lparr>tk_strength := 0\<rparr>)) = 1
   \<and> length (TimestepKeyframeGroup_add TimestepKeyframeGroup_init
        (TimestepKeyframe_default\<lparr>tk_start_percent := 1/2\<rparr>)) = 2"
  using add_replaces_or_inserts[where
      ls = "[\<lparr>lk_batch_index = 0, lk_strength = 2\<rparr>, \<lparr>lk_batch_index = 2, lk_strength = 1/2\<rparr>]"
      and k = "\<lparr>lk_batch_index = 2, lk_strength = 3\<rparr>"
      and ts = TimestepKeyframeGroup_init and t = "TimestepKeyframe_default\<lparr>tk_strength := 0\<rparr>"]
    add_replaces_or_inserts[where
      ls = "[\<lparr>lk_batch_index = 0, lk_strength = 2\<rparr>, \<lparr>lk_batch_index = 2, lk_strength = 1/2\<rparr>]"
      and k = "\<lparr>lk_batch_index = 1, lk_strength = 3\<rparr>"
      and ts = TimestepKeyframeGroup_init
      and t = "TimestepKeyframe_default\<lparr>tk_start_percent := 1/2\<rparr>"]
  by (simp add: LatentKeyframeGroup_add_def TimestepKeyframeGroup_add_def group_add_def
      TimestepKeyframeGroup_init_def TimestepKeyframe_default_def)

subsection \<open>Lookup by position\<close>

text \<open>
  Claim C10, as the code has it. \<open>get_index\<close> never raises. It returns
  \<^verbatim>\<open>None\<close> for an index at or beyond the length and for an index below minus the
  length. For a negative index from minus the length to \<open>-1\<close> it returns an entry,
  the one counted from the end of the list.
\<close>

theorem get_index_outside:
  "((index \<ge> int (length ls) \<or> index < - int (length ls))
      \<longrightarrow> LatentKeyframeGroup_get_index ls index = None)
   \<and> ((- int (length ls) \<le> index \<and> index < 0)
      \<longrightarrow> LatentKeyframeGroup_get_index ls index = Some (ls ! nat (int (length ls) + index)))
   \<and> ((index \<ge> int (length ts) \<or> index < - int (length ts))
      \<longrightarrow> TimestepKeyframeGroup_get_index ts index = None)
   \<and> ((- int (length ts) \<le> index \<and> index < 0)
      \<longrightarrow> TimestepKeyframeGroup_get_index ts index = Some (ts ! nat (int (length ts) + index)))"
  by (auto simp: LatentKeyframeGroup_get_index_def TimestepKeyframeGroup_get_index_def
      group_get_index_def py_index_def)

theorem get_index_outside_witness:
  "LatentKeyframeGroup_get_index [\<lparr>lk_batch_index = 0, lk_strength = 1\<rparr>] 1 = None
   \<and> LatentKeyframeGroup_get_index [\<lparr>lk_batch_index = 0, lk_strength = 1\<rparr>] (- 2) = None
   \<and> LatentKeyframeGroup_get_index [\<lparr>lk_batch_index = 0, lk_strength = 1\<rparr>] (- 1)
       = Some \<lparr>lk_batch_index = 0, lk_strength = 1\<rparr>
   \<and> TimestepKeyframeGroup_get_index TimestepKeyframeGroup_init 1 = None
   \<and> TimestepKeyframeGroup_get_index TimestepKeyframeGroup_init (- 1)
       = Some TimestepKeyframe_default"
  using get_index_outside[where index=1 and ls="[\<lparr>lk_batch_index = 0, lk_strength = 1\<rparr>]" and ts=TimestepKeyframeGroup_init]
    get_index_outside[where index="- 2" and ls="[\<lparr>lk_batch_index = 0, lk_strength = 1\<rparr>]" and ts=TimestepKeyframeGroup_init]
    get_index_outside[where index="- 1" and ls="[\<lparr>lk_batch_index = 0, lk_strength = 1\<rparr>]" and ts=TimestepKeyframeGroup_init]
  by (simp add: TimestepKeyframeGroup_init_def)

text \<open>The claim as it was stated says that every negative index gives \<^verbatim>\<open>None\<close>;
  index \<open>-1\<close> on a group of one keyframe gives that keyframe.\<close>

theorem get_index_negative_counterexample:
  "LatentKeyframeGroup_get_index [\<lparr>lk_batch_index = 0, lk_strength = 1\<rparr>] (- 1)
     = Some \<lparr>lk_batch_index = 0, lk_strength = 1\<rparr>"
  by (simp add: LatentKeyframeGroup_get_index_def group_get_index_def py_index_def)

section \<open>Universal weights of the dense ControlNet variant\<close>

lemma rev_pow13: "rev (map (\<lambda>i. (m::real) ^ (12 - i)) [0..<13]) = map (\<lambda>i. m ^ i) [0..<13]"
  by (simp add: upt_rec[of 0] upt_rec[of "Suc _"] numeral_eq_Suc)

text \<open>
  Claim C8, as the code has it. From base multiplier \<open>m\<close> the dense-ControlNet variant
  derives 13 weights. When \<^verbatim>\<open>flip_weights\<close> is not set, position \<open>i\<close> holds
  \<open>m ^ (12 - i)\<close>; when it is set, the list is reversed by the constructor and
  position \<open>i\<close> holds \<open>m ^ i\<close>.
\<close>

theorem universal_weights_controlnet:
  "cw_weights (ControlNetAdvanced_get_universal_weights w) =
     Some (if cw_flip_weights w
           then map (\<lambda>i. cw_base_multiplier w ^ i) [0..<13]
           else map (\<lambda>i. cw_base_multiplier w ^ (12 - i)) [0..<13])"
  by (simp only: ControlNetAdvanced_get_universal_weights_def ControlWeights_controlnet_def
        ControlWeights_init_def or_ones_def Let_def rev_pow13 option.case
        ControlWeights.select_convs if_distrib[of Some] split: if_splits)

theorem universal_weights_controlnet_witness:
  "cw_weights (ControlNetAdvanced_get_universal_weights (ControlWeights_universal (1/2) False)) =
     Some [(1/2)^12, (1/2)^11, (1/2)^10, (1/2)^9, (1/2)^8, (1/2)^7, (1/2)^6, (1/2)^5,
           (1/2)^4, (1/2)^3, (1/2)^2, (1/2)^1, (1/2)^0]"
  using universal_weights_controlnet[of "ControlWeights_universal (1/2) False"]
  by (simp add: ControlWeights_universal_def ControlWeights_init_def upt_rec[of 0] upt_rec[of "Suc _"] numeral_eq_Suc)

text \<open>The claim as it was stated has \<open>m ^ 12\<close> at position 0 for every universal
  profile; with \<open>m = 0.5\<close> and \<^verbatim>\<open>flip_weights\<close> set, position 0 holds 1.\<close>

theorem universal_weights_flipped_counterexample:
  "ControlWeights_get
     (ControlNetAdvanced_get_universal_weights (ControlWeights_universal (1/2) True)) 0 = Inr 1
   \<and> (1::real) \<noteq> (1/2) ^ 12"
  by (simp add: ControlWeights_get_def ControlNetAdvanced_get_universal_weights_def
      ControlWeights_controlnet_def ControlWeights_universal_def ControlWeights_init_def or_ones_def
      upt_rec[of 0] upt_rec[of "Suc _"] numeral_eq_Suc)

section \<open>Resolving the active timestep keyframe\<close>

subsection \<open>What the steps keep and change\<close>

lemma adopt_keyframe_index [simp]:
  "current_timestep_index (adopt_keyframe self i tk) = int i"
  by (simp add: adopt_keyframe_def Let_def split: option.splits)

lemma adopt_keyframe_keyframe [simp]:
  "current_timestep_keyframe (adopt_keyframe self i tk) = Some tk"
  by (simp add: adopt_keyframe_def Let_def split: option.splits)

lemma adopt_keyframe_weights:
  "weights (adopt_keyframe self i tk) =
     (case tk_control_weights tk of
        Some w \<Rightarrow> Some w
      | None \<Rightarrow> if tk_inherit_missing tk then weights self else Some (weights_default self))"
  by (simp add: adopt_keyframe_def Let_def split: option.splits)

lemma adopt_keyframe_latent:
  "latent_keyframes (adopt_keyframe self i tk) =
     (case tk_latent_keyframes tk of
        Some g \<Rightarrow> Some g
      | None \<Rightarrow> if tk_inherit_missing tk then latent_keyframes self else None)"
  by (simp add: adopt_keyframe_def Let_def split: option.splits)

lemma adopt_keyframe_mask:
  "tk_mask_cond_hint_original (adopt_keyframe self i tk) =
     (case tk_mask_hint_orig tk of
        Some m \<Rightarrow> Some m
      | None \<Rightarrow> if tk_inherit_missing tk then tk_mask_cond_hint_original self else None)"
  by (simp add: adopt_keyframe_def Let_def split: option.splits)

lemma adopt_keyframe_same [simp]:
  "strength (adopt_keyframe self i tk) = strength self"
  "weights_override (adopt_keyframe self i tk) = weights_override self"
  "latent_keyframe_override (adopt_keyframe self i tk) = latent_keyframe_override self"
  "weights_default (adopt_keyframe self i tk) = weights_default self"
  "variant (adopt_keyframe self i tk) = variant self"
  by (simp_all add: adopt_keyframe_def Let_def split: option.splits)

lemma adopt_keyframe_timeline:
  "adopt_keyframe (self\<lparr>timestep_keyframes := tks\<rparr>) i tk
     = (adopt_keyframe self i tk)\<lparr>timestep_keyframes := tks\<rparr>"
  by (simp add: adopt_keyframe_def Let_def split: option.splits)

lemma scan_keyframes_index:
  "current_timestep_index self \<le> int i \<Longrightarrow>
   current_timestep_index self \<le> current_timestep_index (scan_keyframes curr_t i ks self)"
proof (induction ks arbitrary: i self)
  case Nil
  then show ?case by simp
next
  case (Cons tk ks)
  have "int i \<le> current_timestep_index (scan_keyframes curr_t (Suc i) ks (adopt_keyframe self i tk))"
    using Cons.IH[of "adopt_keyframe self i tk" "Suc i"] by simp
  with Cons.prems show ?case by (simp add: Let_def)
qed

lemma scan_keyframes_strength [simp]:
  "strength (scan_keyframes curr_t i ks self) = strength self"
  by (induction ks arbitrary: i self) (simp_all add: Let_def)

lemma scan_keyframes_timeline:
  "scan_keyframes curr_t i ks (self\<lparr>timestep_keyframes := tks\<rparr>)
     = (scan_keyframes curr_t i ks self)\<lparr>timestep_keyframes := tks\<rparr>"
  by (induction ks arbitrary: i self) (simp_all add: Let_def adopt_keyframe_timeline)

lemma apply_overrides_index [simp]:
  "current_timestep_index (apply_overrides p self) = current_timestep_index self"
  by (simp add: apply_overrides_def Let_def split: option.splits)

lemma apply_overrides_strength [simp]:
  "strength (apply_overrides p self) = strength self"
  by (simp add: apply_overrides_def Let_def split: option.splits)

lemma apply_overrides_timeline:
  "apply_overrides p (self\<lparr>timestep_keyframes := tks\<rparr>)
     = (apply_overrides p self)\<lparr>timestep_keyframes := tks\<rparr>"
  by (simp add: apply_overrides_def Let_def split: option.splits)

lemma prepare_weights_index [simp]:
  "current_timestep_index (prepare_weights self) = current_timestep_index self"
  by (simp add: prepare_weights_def split: option.splits)

lemma prepare_weights_strength [simp]:
  "strength (prepare_weights self) = strength self"
  by (simp add: prepare_weights_def split: option.splits)

lemma prepare_weights_timeline:
  "prepare_weights (self\<lparr>timestep_keyframes := tks\<rparr>)
     = (prepare_weights self)\<lparr>timestep_keyframes := tks\<rparr>"
  by (simp add: prepare_weights_def split: option.splits)

lemma prepare_current_timestep_total:
  "tt \<noteq> [] \<Longrightarrow> \<exists>self'. prepare_current_timestep self tt bn = Inr self'"
  by (cases tt) (simp_all add: prepare_current_timestep_def Let_def)

lemma prepare_current_timestep_index:
  assumes "prepare_current_timestep self tt bn = Inr self'"
  shows "current_timestep_index self \<le> current_timestep_index self'"
proof (cases tt)
  case Nil
  with assms show ?thesis by (simp add: prepare_current_timestep_def)
next
  case (Cons curr_t ts)
  let ?s0 = "self\<lparr>self_t := Some tt, batched_number := Some bn\<rparr>"
  let ?p = "current_timestep_index self"
  show ?thesis
  proof (cases "TimestepKeyframeGroup_has_index (timestep_keyframes self) (?p + 1)")
    case True
    then have "0 \<le> ?p + 1" by (simp add: TimestepKeyframeGroup_has_index_def)
    then have "current_timestep_index ?s0 \<le> int (nat (?p + 1))" by simp
    from scan_keyframes_index[OF this]
    have "?p \<le> current_timestep_index (scan_keyframes curr_t (nat (?p + 1))
             (drop (nat (?p + 1)) (timestep_keyframes self)) ?s0)" by simp
    with assms Cons True show ?thesis
      by (auto simp: prepare_current_timestep_def Let_def)
  next
    case False
    with assms Cons show ?thesis
      by (auto simp: prepare_current_timestep_def Let_def)
  qed
qed

lemma prepare_current_timestep_strength:
  "prepare_current_timestep self tt bn = Inr self' \<Longrightarrow> strength self' = strength self"
  by (cases tt) (auto simp: prepare_current_timestep_def Let_def)

lemma drop_eq_from:
  assumes "length xs = length ys" and "\<forall>j < length xs. n \<le> j \<longrightarrow> xs ! j = ys ! j"
  shows "drop n xs = drop n ys"
  using assms by (auto simp: list_eq_iff_nth_eq)

lemma timeline_update_first:
  "self\<lparr>timestep_keyframes := tks\<rparr>\<lparr>self_t := a, batched_number := b\<rparr>
     = self\<lparr>self_t := a, batched_number := b\<rparr>\<lparr>timestep_keyframes := tks\<rparr>"
  by (cases self) simp

lemma prepare_current_timestep_timeline:
  assumes len: "length tks = length (timestep_keyframes self)"
    and same: "\<forall>j < length tks. current_timestep_index self < int j
                 \<longrightarrow> tks ! j = timestep_keyframes self ! j"
  shows "prepare_current_timestep (self\<lparr>timestep_keyframes := tks\<rparr>) tt bn
         = map_sum id (\<lambda>s. s\<lparr>timestep_keyframes := tks\<rparr>) (prepare_current_timestep self tt bn)"
proof (cases tt)
  case Nil
  then show ?thesis by (simp add: prepare_current_timestep_def)
next
  case (Cons curr_t ts)
  let ?p = "current_timestep_index self"
  let ?s0 = "self\<lparr>self_t := Some tt, batched_number := Some bn\<rparr>"
  let ?n = "nat (?p + 1)"
  have hi: "TimestepKeyframeGroup_has_index tks (?p + 1)
            = TimestepKeyframeGroup_has_index (timestep_keyframes self) (?p + 1)"
    by (simp add: TimestepKeyframeGroup_has_index_def len)
  show ?thesis
  proof (cases "TimestepKeyframeGroup_has_index (timestep_keyframes self) (?p + 1)")
    case True
    then have nn: "0 \<le> ?p + 1" by (simp add: TimestepKeyframeGroup_has_index_def)
    have "\<forall>j < length tks. ?n \<le> j \<longrightarrow> tks ! j = timestep_keyframes self ! j"
      using same nn by auto
    then have d: "drop ?n tks = drop ?n (timestep_keyframes self)"
      using len by (intro drop_eq_from) auto
    let ?ks = "drop ?n (timestep_keyframes self)"
    have l: "prepare_current_timestep (self\<lparr>timestep_keyframes := tks\<rparr>) tt bn
             = Inr (prepare_weights (apply_overrides ?p
                 (scan_keyframes curr_t ?n ?ks (?s0\<lparr>timestep_keyframes := tks\<rparr>))))"
      using True hi Cons by (simp add: prepare_current_timestep_def Let_def d timeline_update_first)
    have r: "prepare_current_timestep self tt bn
             = Inr (prepare_weights (apply_overrides ?p (scan_keyframes curr_t ?n ?ks ?s0)))"
      using True Cons by (simp add: prepare_current_timestep_def Let_def)
    show ?thesis
      unfolding l r
      by (simp only: scan_keyframes_timeline apply_overrides_timeline prepare_weights_timeline
          map_sum.simps id_apply)
  next
    case False
    have l: "prepare_current_timestep (self\<lparr>timestep_keyframes := tks\<rparr>) tt bn
             = Inr (prepare_weights (apply_overrides ?p (?s0\<lparr>timestep_keyframes := tks\<rparr>)))"
      using False hi Cons by (simp add: prepare_current_timestep_def Let_def timeline_update_first)
    have r: "prepare_current_timestep self tt bn
             = Inr (prepare_weights (apply_overrides ?p ?s0))"
      using False Cons by (simp add: prepare_current_timestep_def Let_def)
    show ?thesis
      unfolding l r
      by (simp only: apply_overrides_timeline prepare_weights_timeline map_sum.simps id_apply)
  qed
qed

lemma prepare_weights_latent [simp]:
  "latent_keyframes (prepare_weights self) = latent_keyframes self"
  "tk_mask_cond_hint_original (prepare_weights self) = tk_mask_cond_hint_original self"
  "current_timestep_keyframe (prepare_weights self) = current_timestep_keyframe self"
  by (simp_all add: prepare_weights_def split: option.splits)

lemma prepare_weights_cong:
  "weights a = weights b \<Longrightarrow> weights_default a = weights_default b \<Longrightarrow> variant a = variant b
   \<Longrightarrow> weights (prepare_weights a) = weights (prepare_weights b)"
  by (simp add: prepare_weights_def split: option.splits)

subsection \<open>The cursor only moves forward\<close>

text \<open>
  Claim C5. A call of \<open>prepare_current_timestep\<close> that returns leaves
  \<open>current_timestep_index\<close> at least where it was, and it returns whenever the
  timestep tensor is not empty. The scan looks only at entries beyond the current index:
  a timeline of the same length that agrees with the node's timeline at every position
  beyond the current index gives the same result, up to the stored timeline itself.
  \<open>cleanup_advanced\<close> is the reset that puts the cursor back to \<open>-1\<close>.
\<close>

theorem active_index_monotone:
  "(\<forall>self'. prepare_current_timestep self tt bn = Inr self'
        \<longrightarrow> current_timestep_index self \<le> current_timestep_index self')
   \<and> (tt \<noteq> [] \<longrightarrow> (\<exists>self'. prepare_current_timestep self tt bn = Inr self'))
   \<and> (\<forall>tks. length tks = length (timestep_keyframes self)
          \<and> (\<forall>j < length tks. current_timestep_index self < int j
                 \<longrightarrow> tks ! j = timestep_keyframes self ! j)
        \<longrightarrow> prepare_current_timestep (self\<lparr>timestep_keyframes := tks\<rparr>) tt bn
            = map_sum id (\<lambda>s. s\<lparr>timestep_keyframes := tks\<rparr>)
                (prepare_current_timestep self tt bn))
   \<and> current_timestep_index (cleanup_advanced self) = - 1"
  using prepare_current_timestep_index[of self tt bn] prepare_current_timestep_total[of tt self bn]
    prepare_current_timestep_timeline[of _ self tt bn]
  by (simp add: cleanup_advanced_def)

theorem active_index_monotone_witness:
  "(\<exists>s. prepare_current_timestep (cleanup_advanced unit_node) [999] 1 = Inr s
        \<and> current_timestep_index (cleanup_advanced unit_node) \<le> current_timestep_index s)
   \<and> prepare_current_timestep
        (unit_node\<lparr>timestep_keyframes :=
           [TimestepKeyframe_default\<lparr>tk_strength := 0\<rparr>,
            TimestepKeyframe_default\<lparr>tk_start_percent := 1/2, tk_start_t := 500\<rparr>]\<rparr>) [400] 1
      = map_sum id (\<lambda>s. s\<lparr>timestep_keyframes :=
           [TimestepKeyframe_default\<lparr>tk_strength := 0\<rparr>,
            TimestepKeyframe_default\<lparr>tk_start_percent := 1/2, tk_start_t := 500\<rparr>]\<rparr>)
          (prepare_current_timestep
            (unit_node\<lparr>timestep_keyframes :=
               [TimestepKeyframe_default,
                TimestepKeyframe_default\<lparr>tk_start_percent := 1/2, tk_start_t := 500\<rparr>]\<rparr>) [400] 1)"
proof -
  let ?n = "cleanup_advanced unit_node"
  let ?k2 = "TimestepKeyframe_default\<lparr>tk_start_percent := 1/2, tk_start_t := 500\<rparr>"
  let ?m = "unit_node\<lparr>timestep_keyframes := [TimestepKeyframe_default, ?k2]\<rparr>"
  let ?tks = "[TimestepKeyframe_default\<lparr>tk_strength := 0\<rparr>, ?k2]"
  note a = active_index_monotone[of ?n "[999]" 1]
  from a obtain s where s: "prepare_current_timestep ?n [999] 1 = Inr s" by auto
  with a have "current_timestep_index ?n \<le> current_timestep_index s" by blast
  with s have first: "\<exists>s. prepare_current_timestep ?n [999] 1 = Inr s
        \<and> current_timestep_index ?n \<le> current_timestep_index s" by blast
  have pre: "length ?tks = length (timestep_keyframes ?m)
          \<and> (\<forall>j < length ?tks. current_timestep_index ?m < int j
                 \<longrightarrow> ?tks ! j = timestep_keyframes ?m ! j)"
    by (simp add: unit_node_def less_Suc_eq)
  from active_index_monotone[of ?m "[400]" 1] pre
  have "prepare_current_timestep (?m\<lparr>timestep_keyframes := ?tks\<rparr>) [400] 1
            = map_sum id (\<lambda>s. s\<lparr>timestep_keyframes := ?tks\<rparr>)
                (prepare_current_timestep ?m [400] 1)" by blast
  then have second: "prepare_current_timestep (unit_node\<lparr>timestep_keyframes := ?tks\<rparr>) [400] 1
            = map_sum id (\<lambda>s. s\<lparr>timestep_keyframes := ?tks\<rparr>)
                (prepare_current_timestep ?m [400] 1)" by simp
  from first second show ?thesis by blast
qed

subsection \<open>Inheritance of missing attributes\<close>

text \<open>
  Claim C2. When the scan of \<open>prepare_current_timestep\<close> reaches an entry that
  qualifies, it adopts it: the entry becomes the active keyframe at its position, and
  each of the control weights, the latent keyframe group and the mask hint,
  independently, becomes the keyframe's value if the keyframe defines it, else is reset
  (weights to the default profile of the variant, latent group and mask to absent) if
  \<open>inherit_missing\<close> is false, else stays what it was; the scan then stops if the
  entry has \<open>guarantee_usage\<close> and goes on from the adopted state otherwise. For a
  whole call that adopts the next entry, with \<open>guarantee_usage\<close> and no overrides
  set, the same holds of the state the call returns, the weights being finalised by
  \<open>prepare_weights\<close>.
\<close>

theorem inheritance_rule:
  "(curr_t \<le> tk_start_t tk \<longrightarrow>
      (\<exists>s'. scan_keyframes curr_t i (tk # rest) self
               = (if tk_guarantee_usage tk then s' else scan_keyframes curr_t (Suc i) rest s')
         \<and> current_timestep_index s' = int i
         \<and> current_timestep_keyframe s' = Some tk
         \<and> weights s' = (case tk_control_weights tk of
                            Some w \<Rightarrow> Some w
                          | None \<Rightarrow> if tk_inherit_missing tk then weights self
                                    else Some (weights_default self))
         \<and> latent_keyframes s' = (case tk_latent_keyframes tk of
                            Some g \<Rightarrow> Some g
                          | None \<Rightarrow> if tk_inherit_missing tk then latent_keyframes self
                                    else None)
         \<and> tk_mask_cond_hint_original s' = (case tk_mask_hint_orig tk of
                            Some m \<Rightarrow> Some m
                          | None \<Rightarrow> if tk_inherit_missing tk then tk_mask_cond_hint_original self
                                    else None)))
   \<and> (- 1 \<le> current_timestep_index self
        \<and> nat (current_timestep_index self + 1) < length (timestep_keyframes self)
        \<and> timestep_keyframes self ! nat (current_timestep_index self + 1) = tk
        \<and> curr_t \<le> tk_start_t tk \<and> tk_guarantee_usage tk
        \<and> weights_override self = None \<and> latent_keyframe_override self = None \<longrightarrow>
      (\<exists>s'. prepare_current_timestep self (curr_t # ts) bn = Inr s'
         \<and> current_timestep_index s' = current_timestep_index self + 1
         \<and> current_timestep_keyframe s' = Some tk
         \<and> weights s' = weights (prepare_weights (self\<lparr>weights :=
                           (case tk_control_weights tk of
                              Some w \<Rightarrow> Some w
                            | None \<Rightarrow> if tk_inherit_missing tk then weights self
                                      else Some (weights_default self))\<rparr>))
         \<and> latent_keyframes s' = (case tk_latent_keyframes tk of
                            Some g \<Rightarrow> Some g
                          | None \<Rightarrow> if tk_inherit_missing tk then latent_keyframes self
                                    else None)
         \<and> tk_mask_cond_hint_original s' = (case tk_mask_hint_orig tk of
                            Some m \<Rightarrow> Some m
                          | None \<Rightarrow> if tk_inherit_missing tk then tk_mask_cond_hint_original self
                                    else None)))"
proof (intro conjI impI)
  assume q: "curr_t \<le> tk_start_t tk"
  show "\<exists>s'. scan_keyframes curr_t i (tk # rest) self
               = (if tk_guarantee_usage tk then s' else scan_keyframes curr_t (Suc i) rest s')
         \<and> current_timestep_index s' = int i
         \<and> current_timestep_keyframe s' = Some tk
         \<and> weights s' = (case tk_control_weights tk of
                            Some w \<Rightarrow> Some w
                          | None \<Rightarrow> if tk_inherit_missing tk then weights self
                                    else Some (weights_default self))
         \<and> latent_keyframes s' = (case tk_latent_keyframes tk of
                            Some g \<Rightarrow> Some g
                          | None \<Rightarrow> if tk_inherit_missing tk then latent_keyframes self
                                    else None)
         \<and> tk_mask_cond_hint_original s' = (case tk_mask_hint_orig tk of
                            Some m \<Rightarrow> Some m
                          | None \<Rightarrow> if tk_inherit_missing tk then tk_mask_cond_hint_original self
                                    else None)"
    using q
    by (intro exI[of _ "adopt_keyframe self i tk"])
       (simp add: Let_def adopt_keyframe_weights adopt_keyframe_latent adopt_keyframe_mask)
next
  assume h: "- 1 \<le> current_timestep_index self
        \<and> nat (current_timestep_index self + 1) < length (timestep_keyframes self)
        \<and> timestep_keyframes self ! nat (current_timestep_index self + 1) = tk
        \<and> curr_t \<le> tk_start_t tk \<and> tk_guarantee_usage tk
        \<and> weights_override self = None \<and> latent_keyframe_override self = None"
  let ?p = "current_timestep_index self"
  let ?i = "nat (?p + 1)"
  let ?s0 = "self\<lparr>self_t := Some (curr_t # ts), batched_number := Some bn\<rparr>"
  let ?a = "adopt_keyframe ?s0 ?i tk"
  from h have hi: "TimestepKeyframeGroup_has_index (timestep_keyframes self) (?p + 1)"
    by (auto simp: TimestepKeyframeGroup_has_index_def)
  from h have d: "drop ?i (timestep_keyframes self) = tk # drop (Suc ?i) (timestep_keyframes self)"
    by (metis Cons_nth_drop_Suc)
  from h have ne: "?p \<noteq> int ?i" by simp
  have ov: "apply_overrides ?p ?a = ?a"
    using h ne by (simp add: apply_overrides_def)
  have r: "prepare_current_timestep self (curr_t # ts) bn = Inr (prepare_weights ?a)"
    using h hi by (simp add: prepare_current_timestep_def Let_def d ov)
  have w: "weights (prepare_weights ?a) = weights (prepare_weights (self\<lparr>weights :=
                           (case tk_control_weights tk of
                              Some w \<Rightarrow> Some w
                            | None \<Rightarrow> if tk_inherit_missing tk then weights self
                                      else Some (weights_default self))\<rparr>))"
    by (rule prepare_weights_cong) (simp_all add: adopt_keyframe_weights split: option.splits)
  show "\<exists>s'. prepare_current_timestep self (curr_t # ts) bn = Inr s'
         \<and> current_timestep_index s' = current_timestep_index self + 1
         \<and> current_timestep_keyframe s' = Some tk
         \<and> weights s' = weights (prepare_weights (self\<lparr>weights :=
                           (case tk_control_weights tk of
                              Some w \<Rightarrow> Some w
                            | None \<Rightarrow> if tk_inherit_missing tk then weights self
                                      else Some (weights_default self))\<rparr>))
         \<and> latent_keyframes s' = (case tk_latent_keyframes tk of
                            Some g \<Rightarrow> Some g
                          | None \<Rightarrow> if tk_inherit_missing tk then latent_keyframes self
                                    else None)
         \<and> tk_mask_cond_hint_original s' = (case tk_mask_hint_orig tk of
                            Some m \<Rightarrow> Some m
                          | None \<Rightarrow> if tk_inherit_missing tk then tk_mask_cond_hint_original self
                                    else None)"
    using h
    by (intro exI[of _ "prepare_weights ?a"])
       (simp add: r w adopt_keyframe_latent adopt_keyframe_mask split: option.splits)
qed

theorem inheritance_rule_witness:
  "(\<exists>s'. scan_keyframes 999 0 [TimestepKeyframe_default\<lparr>tk_inherit_missing := False\<rparr>]
            ((cleanup_advanced unit_node)\<lparr>latent_keyframes := Some [],
               timestep_keyframes := [TimestepKeyframe_default\<lparr>tk_inherit_missing := False\<rparr>]\<rparr>) = s'
        \<and> current_timestep_index s' = 0
        \<and> weights s' = Some (ControlWeights_controlnet None False)
        \<and> latent_keyframes s' = None)
   \<and> (\<exists>s'. prepare_current_timestep
            ((cleanup_advanced unit_node)\<lparr>latent_keyframes := Some [],
               timestep_keyframes := [TimestepKeyframe_default\<lparr>tk_inherit_missing := False\<rparr>]\<rparr>)
            [999] 1 = Inr s'
        \<and> current_timestep_index s' = 0
        \<and> current_timestep_keyframe s' = Some (TimestepKeyframe_default\<lparr>tk_inherit_missing := False\<rparr>)
        \<and> latent_keyframes s' = None)"
proof -
  let ?tk = "TimestepKeyframe_default\<lparr>tk_inherit_missing := False\<rparr>"
  let ?n = "(cleanup_advanced unit_node)\<lparr>latent_keyframes := Some [],
               timestep_keyframes := [?tk]\<rparr>"
  note r = inheritance_rule[where curr_t = 999 and tk = ?tk and i = 0 and rest = "[]"
      and self = ?n and ts = "[]" and bn = 1]
  have q: "(999::real) \<le> tk_start_t ?tk"
    by (simp add: TimestepKeyframe_default_def)
  have g: "tk_guarantee_usage ?tk" "tk_latent_keyframes ?tk = None" "tk_control_weights ?tk = None"
    "\<not> tk_inherit_missing ?tk"
    by (simp_all add: TimestepKeyframe_default_def)
  have h: "- 1 \<le> current_timestep_index ?n
        \<and> nat (current_timestep_index ?n + 1) < length (timestep_keyframes ?n)
        \<and> timestep_keyframes ?n ! nat (current_timestep_index ?n + 1) = ?tk
        \<and> 999 \<le> tk_start_t ?tk \<and> tk_guarantee_usage ?tk
        \<and> weights_override ?n = None \<and> latent_keyframe_override ?n = None"
    using q g by (simp add: cleanup_advanced_def unit_node_def)
  have wd: "weights_default ?n = ControlWeights_controlnet None False"
    by (simp add: cleanup_advanced_def unit_node_def)
  have ix: "current_timestep_index ?n + 1 = 0"
    by (simp add: cleanup_advanced_def unit_node_def)
  from r q obtain s1 where s1: "scan_keyframes 999 0 [?tk] ?n
               = (if tk_guarantee_usage ?tk then s1 else scan_keyframes 999 (Suc 0) [] s1)"
      "current_timestep_index s1 = int 0"
      "weights s1 = (case tk_control_weights ?tk of
                            Some w \<Rightarrow> Some w
                          | None \<Rightarrow> if tk_inherit_missing ?tk then weights ?n
                                    else Some (weights_default ?n))"
      "latent_keyframes s1 = (case tk_latent_keyframes ?tk of
                            Some g \<Rightarrow> Some g
                          | None \<Rightarrow> if tk_inherit_missing ?tk then latent_keyframes ?n
                                    else None)"
    by blast
  from r h obtain s2 where s2: "prepare_current_timestep ?n [999] 1 = Inr s2"
      "current_timestep_index s2 = current_timestep_index ?n + 1"
      "current_timestep_keyframe s2 = Some ?tk"
      "latent_keyframes s2 = (case tk_latent_keyframes ?tk of
                            Some g \<Rightarrow> Some g
                          | None \<Rightarrow> if tk_inherit_missing ?tk then latent_keyframes ?n
                                    else None)"
    by blast
  have a: "scan_keyframes 999 0 [?tk] ?n = s1 \<and> current_timestep_index s1 = 0
        \<and> weights s1 = Some (ControlWeights_controlnet None False) \<and> latent_keyframes s1 = None"
    using s1 g wd by simp
  have b: "prepare_current_timestep ?n [999] 1 = Inr s2 \<and> current_timestep_index s2 = 0
        \<and> current_timestep_keyframe s2 = Some ?tk \<and> latent_keyframes s2 = None"
    using s2 g ix by simp
  from a b show ?thesis by blast
qed

section \<open>The early exit of \<open>get_control\<close>\<close>

lemma short_circuit_iff:
  "short_circuit self = Inr True
     \<longleftrightarrow> strength self = 0
         \<or> (\<exists>tk. current_timestep_keyframe self = Some tk \<and> tk_strength tk = 0)"
  by (auto simp: short_circuit_def split: option.splits)

text \<open>
  Claim C4. After the timestep is prepared, the early exit is taken if and only if the
  strength of the node is 0 or the strength of the active timestep keyframe is 0. When
  it is taken, \<open>get_control_inject\<close> returns what the upstream node returns for the
  same arguments, and nothing when there is no upstream node; the variant's own
  computation \<open>get_control_advanced\<close> does not enter the result. When the condition
  is false, the result is that computation.
\<close>

theorem short_circuit_passes_upstream:
  "(short_circuit self = Inr True
      \<longleftrightarrow> strength self = 0
          \<or> (\<exists>tk. current_timestep_keyframe self = Some tk \<and> tk_strength tk = 0))
   \<and> (prepare_current_timestep self tt bn = Inr self' \<and> short_circuit self' = Inr True
      \<longrightarrow> get_control_inject previous_controlnet get_control_advanced self x_noisy tt cond bn
          = (case previous_controlnet of
               None \<Rightarrow> Inr (self', None)
             | Some prev_get_control \<Rightarrow>
                 (case prev_get_control x_noisy tt cond bn of
                    Inl e \<Rightarrow> Inl e
                  | Inr control_prev \<Rightarrow> Inr (self', control_prev))))
   \<and> (prepare_current_timestep self tt bn = Inr self' \<and> short_circuit self' = Inr False
      \<longrightarrow> get_control_inject previous_controlnet get_control_advanced self x_noisy tt cond bn
          = get_control_advanced self' x_noisy tt cond bn)"
proof (intro conjI impI)
  show "short_circuit self = Inr True
      \<longleftrightarrow> strength self = 0
          \<or> (\<exists>tk. current_timestep_keyframe self = Some tk \<and> tk_strength tk = 0)"
    by (rule short_circuit_iff)
next
  assume "prepare_current_timestep self tt bn = Inr self' \<and> short_circuit self' = Inr True"
  then show "get_control_inject previous_controlnet get_control_advanced self x_noisy tt cond bn
          = (case previous_controlnet of
               None \<Rightarrow> Inr (self', None)
             | Some prev_get_control \<Rightarrow>
                 (case prev_get_control x_noisy tt cond bn of
                    Inl e \<Rightarrow> Inl e
                  | Inr control_prev \<Rightarrow> Inr (self', control_prev)))"
    by (simp add: get_control_inject_def ebind_def split: option.splits sum.splits)
next
  assume "prepare_current_timestep self tt bn = Inr self' \<and> short_circuit self' = Inr False"
  then show "get_control_inject previous_controlnet get_control_advanced self x_noisy tt cond bn
          = get_control_advanced self' x_noisy tt cond bn"
    by (simp add: get_control_inject_def ebind_def)
qed

theorem short_circuit_passes_upstream_witness:
  "\<exists>s. prepare_current_timestep (unit_node\<lparr>strength := 0\<rparr>) [999] 1 = Inr s
      \<and> short_circuit s = Inr True
      \<and> get_control_inject None (\<lambda>_ _ _ _ _. Inl RuntimeError)
           (unit_node\<lparr>strength := 0\<rparr>) () [999] () 1 = Inr (s, None)
      \<and> get_control_inject
           (Some (\<lambda>_ _ _ _. Inr (Some \<lparr>c_input = [], c_middle = [Some (const_layer 2)],
                                       c_output = []\<rparr>)))
           (\<lambda>_ _ _ _ _. Inl RuntimeError)
           (unit_node\<lparr>strength := 0\<rparr>) () [999] () 1
         = Inr (s, Some \<lparr>c_input = [], c_middle = [Some (const_layer 2)], c_output = []\<rparr>)"
proof -
  let ?n = "unit_node\<lparr>strength := 0\<rparr>"
  obtain s where s: "prepare_current_timestep ?n [999] 1 = Inr s"
    using prepare_current_timestep_total[of "[999]" ?n 1] by auto
  then have "strength s = 0"
    using prepare_current_timestep_strength[of ?n "[999]" 1 s] by simp
  then have sc: "short_circuit s = Inr True" by (simp add: short_circuit_def)
  have a: "get_control_inject None (\<lambda>_ _ _ _ _. Inl RuntimeError) ?n () [999] () 1 = Inr (s, None)"
    using short_circuit_passes_upstream[where self = ?n and tt = "[999]" and bn = 1 and self' = s
        and previous_controlnet = None and x_noisy = "()" and cond = "()"
        and get_control_advanced = "\<lambda>_ _ _ _ _. Inl RuntimeError"] s sc
    by simp
  have b: "get_control_inject
           (Some (\<lambda>_ _ _ _. Inr (Some \<lparr>c_input = [], c_middle = [Some (const_layer 2)],
                                       c_output = []\<rparr>)))
           (\<lambda>_ _ _ _ _. Inl RuntimeError) ?n () [999] () 1
         = Inr (s, Some \<lparr>c_input = [], c_middle = [Some (const_layer 2)], c_output = []\<rparr>)"
    using short_circuit_passes_upstream[where self = ?n and tt = "[999]" and bn = 1 and self' = s
        and previous_controlnet = "Some (\<lambda>_ _ _ _. Inr (Some \<lparr>c_input = [],
              c_middle = [Some (const_layer 2)], c_output = []\<rparr>))"
        and x_noisy = "()" and cond = "()"
        and get_control_advanced = "\<lambda>_ _ _ _ _. Inl RuntimeError"] s sc
    by simp
  from s sc a b show ?thesis by blast
qed

section \<open>Merging into the chain\<close>

subsection \<open>The loop over the previous result\<close>

lemma ebind_Inr_iff: "ebind m f = Inr r \<longleftrightarrow> (\<exists>a. m = Inr a \<and> f a = Inr r)"
  by (cases m) (simp_all add: ebind_def)

lemma ebind_Inr [simp]: "ebind (Inr a) f = f a"
  by (simp add: ebind_def)

lemma ebind_Inl [simp]: "ebind (Inl e) f = Inl e"
  by (simp add: ebind_def)

lemma efold_snoc: "efold f (xs @ [x]) a = ebind (efold f xs a) (f x)"
  by (induction xs arbitrary: a) (simp_all split: sum.splits)

lemma merge_prev_loop_forward:
  "n \<le> length prev \<Longrightarrow> efold (merge_prev_step prev) [0..<n] cur = Inr m \<Longrightarrow>
   length m = max (length cur) n
   \<and> (\<forall>i < length m.
         if i < n
         then (if i \<ge> length cur then m ! i = prev ! i
               else merged_entry (cur ! i) (prev ! i) = Inr (m ! i))
         else m ! i = cur ! i)"
proof (induction n arbitrary: m)
  case 0
  then show ?case by simp
next
  case (Suc n)
  from Suc.prems(2) obtain m0 where m0: "efold (merge_prev_step prev) [0..<n] cur = Inr m0"
    and st: "merge_prev_step prev n m0 = Inr m"
    by (auto simp: efold_snoc ebind_Inr_iff)
  from Suc.IH[OF _ m0] Suc.prems(1)
  have len0: "length m0 = max (length cur) n"
    and ent0: "\<forall>i < length m0.
         if i < n
         then (if i \<ge> length cur then m0 ! i = prev ! i
               else merged_entry (cur ! i) (prev ! i) = Inr (m0 ! i))
         else m0 ! i = cur ! i"
    by simp_all
  show ?case
  proof (cases "n \<ge> length m0")
    case True
    with len0 have n: "length cur \<le> n" "length m0 = n" by auto
    from st True have m: "m = m0 @ [prev ! n]" by (simp add: merge_prev_step_def Let_def)
    show ?thesis
      using ent0 n by (auto simp: m nth_append less_Suc_eq)
  next
    case False
    with len0 have n: "n < length cur" "length m0 = length cur" by auto
    with ent0 have cur_n: "m0 ! n = cur ! n" by auto
    have "\<exists>e. merged_entry (cur ! n) (prev ! n) = Inr e \<and> m = m0[n := e]"
    proof (cases "prev ! n")
      case None
      with st False have "m = m0" by (simp add: merge_prev_step_def Let_def)
      moreover have "m0[n := cur ! n] = m0"
        using list_update_id[of m0 n] cur_n by simp
      moreover have "merged_entry (cur ! n) (prev ! n) = Inr (cur ! n)"
        using None by (simp add: merged_entry_def)
      ultimately show ?thesis by simp
    next
      case (Some pv)
      note pv = this
      show ?thesis
      proof (cases "cur ! n")
        case None
        with st False cur_n pv have "m = m0[n := Some pv]"
          by (simp add: merge_prev_step_def Let_def)
        moreover have "merged_entry (cur ! n) (prev ! n) = Inr (Some pv)"
          using None pv by (simp add: merged_entry_def)
        ultimately show ?thesis by simp
      next
        case (Some cv)
        with st False cur_n pv obtain sm where sm: "tensor_iadd cv pv = Inr sm"
          and "m = m0[n := Some sm]"
          by (auto simp: merge_prev_step_def Let_def ebind_Inr_iff)
        moreover have "merged_entry (cur ! n) (prev ! n) = Inr (Some sm)"
          using Some pv sm by (simp add: merged_entry_def)
        ultimately show ?thesis by simp
      qed
    qed
    then obtain e where e: "merged_entry (cur ! n) (prev ! n) = Inr e"
      and m: "m = m0[n := e]" by blast
    have l: "length m = max (length cur) (Suc n)" using n by (simp add: m)
    have "\<forall>i < length m.
         if i < Suc n
         then (if i \<ge> length cur then m ! i = prev ! i
               else merged_entry (cur ! i) (prev ! i) = Inr (m ! i))
         else m ! i = cur ! i"
    proof (intro allI impI)
      fix i assume i: "i < length m"
      then have i0: "i < length m0" by (simp add: m)
      show "if i < Suc n
         then (if i \<ge> length cur then m ! i = prev ! i
               else merged_entry (cur ! i) (prev ! i) = Inr (m ! i))
         else m ! i = cur ! i"
      proof (cases "i = n")
        case True
        then show ?thesis using n e i0 by (simp add: m)
      next
        case False
        then have "m ! i = m0 ! i" by (simp add: m)
        with ent0 i0 False show ?thesis by (auto simp: less_Suc_eq)
      qed
    qed
    with l show ?thesis by blast
  qed
qed

lemma merge_prev_loop_total:
  "n \<le> length prev \<Longrightarrow>
   (\<forall>i < n. i < length cur \<longrightarrow> (\<exists>e. merged_entry (cur ! i) (prev ! i) = Inr e)) \<Longrightarrow>
   \<exists>m. efold (merge_prev_step prev) [0..<n] cur = Inr m"
proof (induction n)
  case 0
  then show ?case by simp
next
  case (Suc n)
  then obtain m0 where m0: "efold (merge_prev_step prev) [0..<n] cur = Inr m0" by auto
  from merge_prev_loop_forward[OF _ m0] Suc.prems(1)
  have len0: "length m0 = max (length cur) n"
    and ent0: "\<forall>i < length m0.
         if i < n
         then (if i \<ge> length cur then m0 ! i = prev ! i
               else merged_entry (cur ! i) (prev ! i) = Inr (m0 ! i))
         else m0 ! i = cur ! i"
    by simp_all
  have "\<exists>m. merge_prev_step prev n m0 = Inr m"
  proof (cases "n \<ge> length m0")
    case True
    then show ?thesis by (simp add: merge_prev_step_def Let_def)
  next
    case False
    with len0 have n: "n < length cur" "length m0 = length cur" by auto
    with ent0 have cur_n: "m0 ! n = cur ! n" by auto
    from Suc.prems(2) n obtain e where "merged_entry (cur ! n) (prev ! n) = Inr e" by auto
    with False cur_n show ?thesis
      by (auto simp: merge_prev_step_def Let_def merged_entry_def ebind_Inr_iff
          split: option.splits)
  qed
  with m0 show ?case by (simp add: efold_snoc)
qed

lemma merged_entries_unique:
  assumes "merged_entries cur prev m" and "merged_entries cur prev m'"
  shows "m = m'"
proof (rule nth_equalityI)
  show "length m = length m'" using assms by (simp add: merged_entries_def)
next
  fix i assume i: "i < length m"
  with assms have i': "i < length m'" by (simp add: merged_entries_def)
  from assms(1) i have a: "if i \<ge> length cur then m ! i = prev ! i
           else if i \<ge> length prev then m ! i = cur ! i
           else merged_entry (cur ! i) (prev ! i) = Inr (m ! i)"
    unfolding merged_entries_def by blast
  from assms(2) i' have b: "if i \<ge> length cur then m' ! i = prev ! i
           else if i \<ge> length prev then m' ! i = cur ! i
           else merged_entry (cur ! i) (prev ! i) = Inr (m' ! i)"
    unfolding merged_entries_def by blast
  from a b show "m ! i = m' ! i"
    by (auto split: if_splits)
qed

lemma merge_prev_list_forward:
  assumes "merge_prev_list cur prev = Inr m"
  shows "merged_entries cur prev m"
proof -
  from merge_prev_loop_forward[of "length prev" prev cur m] assms
  have l: "length m = max (length cur) (length prev)"
    and e: "\<forall>i < length m.
         if i < length prev
         then (if i \<ge> length cur then m ! i = prev ! i
               else merged_entry (cur ! i) (prev ! i) = Inr (m ! i))
         else m ! i = cur ! i"
    by (simp_all add: merge_prev_list_def)
  show ?thesis
    unfolding merged_entries_def
  proof (intro conjI allI impI)
    show "length m = max (length cur) (length prev)" by (rule l)
  next
    fix i assume "i < length m"
    with e l show "if i \<ge> length cur then m ! i = prev ! i
           else if i \<ge> length prev then m ! i = cur ! i
           else merged_entry (cur ! i) (prev ! i) = Inr (m ! i)"
      by (cases "i < length prev") (auto split: if_splits)
  qed
qed

lemma merge_prev_list_iff:
  "merge_prev_list cur prev = Inr m \<longleftrightarrow> merged_entries cur prev m"
proof
  assume "merge_prev_list cur prev = Inr m"
  then show "merged_entries cur prev m" by (rule merge_prev_list_forward)
next
  assume a: "merged_entries cur prev m"
  have "\<forall>i < length prev. i < length cur \<longrightarrow> (\<exists>e. merged_entry (cur ! i) (prev ! i) = Inr e)"
  proof (intro allI impI)
    fix i assume "i < length prev" "i < length cur"
    with a have "merged_entry (cur ! i) (prev ! i) = Inr (m ! i)"
      by (auto simp: merged_entries_def split: if_splits)
    then show "\<exists>e. merged_entry (cur ! i) (prev ! i) = Inr e" by blast
  qed
  from merge_prev_loop_total[OF le_refl this]
  obtain m' where m': "merge_prev_list cur prev = Inr m'" by (auto simp: merge_prev_list_def)
  from merged_entries_unique[OF a merge_prev_list_forward[OF m']] m'
  show "merge_prev_list cur prev = Inr m" by simp
qed

lemma merge_prev_iff:
  "merge_prev own p = Inr out \<longleftrightarrow>
     merged_entries (c_input own) (c_input p) (c_input out)
     \<and> merged_entries (c_middle own) (c_middle p) (c_middle out)
     \<and> merged_entries (c_output own) (c_output p) (c_output out)"
proof
  assume "merge_prev own p = Inr out"
  then obtain i' m' o' where i': "merge_prev_list (c_input own) (c_input p) = Inr i'"
    and m': "merge_prev_list (c_middle own) (c_middle p) = Inr m'"
    and o': "merge_prev_list (c_output own) (c_output p) = Inr o'"
    and out: "out = \<lparr>c_input = i', c_middle = m', c_output = o'\<rparr>"
    unfolding merge_prev_def ebind_Inr_iff by blast
  from i' m' o' show "merged_entries (c_input own) (c_input p) (c_input out)
     \<and> merged_entries (c_middle own) (c_middle p) (c_middle out)
     \<and> merged_entries (c_output own) (c_output p) (c_output out)"
    by (simp add: out merge_prev_list_iff)
next
  assume "merged_entries (c_input own) (c_input p) (c_input out)
     \<and> merged_entries (c_middle own) (c_middle p) (c_middle out)
     \<and> merged_entries (c_output own) (c_output p) (c_output out)"
  then have "merge_prev_list (c_input own) (c_input p) = Inr (c_input out)"
    "merge_prev_list (c_middle own) (c_middle p) = Inr (c_middle out)"
    "merge_prev_list (c_output own) (c_output p) = Inr (c_output out)"
    by (simp_all add: merge_prev_list_iff)
  then show "merge_prev own p = Inr out"
    by (simp add: merge_prev_def)
qed

lemma control_merge_inject_prev:
  "control_merge_inject ext self ci co (Some p) dt
     = ebind (control_merge_inject ext self ci co None dt) (\<lambda>own. merge_prev own p)"
  by (simp add: control_merge_inject_def ebind_def Let_def split: sum.splits prod.splits)

subsection \<open>The loops over the layers\<close>

lemma input_loop_iff:
  "efold (\<lambda>(i, x) acc. ebind (f i x) (\<lambda>x'. Inr (x' # acc))) (enumerate n xs) acc0 = Inr r
   \<longleftrightarrow> (\<exists>ys. length ys = length xs \<and> (\<forall>j < length xs. f (n + j) (xs ! j) = Inr (ys ! j))
             \<and> r = rev ys @ acc0)"
proof (induction xs arbitrary: n acc0)
  case Nil
  then show ?case by auto
next
  case (Cons x xs)
  show ?case
  proof
    assume "efold (\<lambda>(i, x) acc. ebind (f i x) (\<lambda>x'. Inr (x' # acc))) (enumerate n (x # xs)) acc0 = Inr r"
    then obtain y where y: "f n x = Inr y"
      and rest: "efold (\<lambda>(i, x) acc. ebind (f i x) (\<lambda>x'. Inr (x' # acc)))
                   (enumerate (Suc n) xs) (y # acc0) = Inr r"
      by (cases "f n x") (simp_all)
    from rest Cons.IH[of "Suc n" "y # acc0"] obtain ys where ys: "length ys = length xs"
      "\<forall>j < length xs. f (Suc n + j) (xs ! j) = Inr (ys ! j)" "r = rev ys @ (y # acc0)"
      by blast
    have "\<forall>j < length (x # xs). f (n + j) ((x # xs) ! j) = Inr ((y # ys) ! j)"
    proof (intro allI impI)
      fix j assume "j < length (x # xs)"
      then show "f (n + j) ((x # xs) ! j) = Inr ((y # ys) ! j)"
        using y ys(2) by (cases j) simp_all
    qed
    with ys(1,3) show "\<exists>ys. length ys = length (x # xs)
        \<and> (\<forall>j < length (x # xs). f (n + j) ((x # xs) ! j) = Inr (ys ! j)) \<and> r = rev ys @ acc0"
      by (intro exI[of _ "y # ys"]) simp
  next
    assume "\<exists>ys. length ys = length (x # xs)
        \<and> (\<forall>j < length (x # xs). f (n + j) ((x # xs) ! j) = Inr (ys ! j)) \<and> r = rev ys @ acc0"
    then obtain ys where l: "length ys = length (x # xs)"
      and e: "\<forall>j < length (x # xs). f (n + j) ((x # xs) ! j) = Inr (ys ! j)"
      and r: "r = rev ys @ acc0" by blast
    from l obtain y ys' where yy: "ys = y # ys'" by (cases ys) auto
    from e have y: "f n x = Inr y" by (auto simp: yy)
    have "\<forall>j < length xs. f (Suc n + j) (xs ! j) = Inr (ys' ! j)"
    proof (intro allI impI)
      fix j assume "j < length xs"
      then have "Suc j < length (x # xs)" by simp
      with e have "f (n + Suc j) ((x # xs) ! Suc j) = Inr (ys ! Suc j)" by blast
      then show "f (Suc n + j) (xs ! j) = Inr (ys' ! j)" by (simp add: yy)
    qed
    with l yy r have "\<exists>zs. length zs = length xs
        \<and> (\<forall>j < length xs. f (Suc n + j) (xs ! j) = Inr (zs ! j))
        \<and> r = rev zs @ (y # acc0)"
      by (intro exI[of _ ys']) simp
    with Cons.IH[of "Suc n" "y # acc0"]
    have "efold (\<lambda>(i, x) acc. ebind (f i x) (\<lambda>x'. Inr (x' # acc)))
                   (enumerate (Suc n) xs) (y # acc0) = Inr r" by blast
    with y show "efold (\<lambda>(i, x) acc. ebind (f i x) (\<lambda>x'. Inr (x' # acc)))
        (enumerate n (x # xs)) acc0 = Inr r"
      by simp
  qed
qed

lemma output_loop_iff:
  "efold (\<lambda>(i, x) (mid, out).
            ebind (f i x) (\<lambda>x'. Inr (if i = L then (mid @ [x'], out) else (mid, out @ [x']))))
     (enumerate n xs) (mid0, out0) = Inr (mid, out)
   \<longleftrightarrow> (\<exists>ys. length ys = length xs \<and> (\<forall>j < length xs. f (n + j) (xs ! j) = Inr (ys ! j))
             \<and> mid = mid0 @ map snd (filter (\<lambda>(i, y). i = L) (enumerate n ys))
             \<and> out = out0 @ map snd (filter (\<lambda>(i, y). i \<noteq> L) (enumerate n ys)))"
  (is "?loop n xs mid0 out0 = Inr (mid, out) \<longleftrightarrow> ?closed n xs mid0 out0")
proof (induction xs arbitrary: n mid0 out0)
  case Nil
  then show ?case by auto
next
  case (Cons x xs)
  let ?mid1 = "\<lambda>y. if n = L then mid0 @ [y] else mid0"
  let ?out1 = "\<lambda>y. if n = L then out0 else out0 @ [y]"
  have step: "?loop n (x # xs) mid0 out0
     = (case f n x of Inl e \<Rightarrow> Inl e | Inr y \<Rightarrow> ?loop (Suc n) xs (?mid1 y) (?out1 y))"
    by (cases "f n x") simp_all
  show ?case
  proof
    assume a: "?loop n (x # xs) mid0 out0 = Inr (mid, out)"
    then obtain y where y: "f n x = Inr y"
      and rest: "?loop (Suc n) xs (?mid1 y) (?out1 y) = Inr (mid, out)"
      unfolding step by (cases "f n x") simp_all
    from rest Cons.IH[of "Suc n" "?mid1 y" "?out1 y"] obtain ys where ys: "length ys = length xs"
      "\<forall>j < length xs. f (Suc n + j) (xs ! j) = Inr (ys ! j)"
      "mid = ?mid1 y @ map snd (filter (\<lambda>(i, y). i = L) (enumerate (Suc n) ys))"
      "out = ?out1 y @ map snd (filter (\<lambda>(i, y). i \<noteq> L) (enumerate (Suc n) ys))"
      by blast
    have "\<forall>j < length (x # xs). f (n + j) ((x # xs) ! j) = Inr ((y # ys) ! j)"
    proof (intro allI impI)
      fix j assume "j < length (x # xs)"
      then show "f (n + j) ((x # xs) ! j) = Inr ((y # ys) ! j)"
        using y ys(2) by (cases j) simp_all
    qed
    with ys(1,3,4) show "?closed n (x # xs) mid0 out0"
      by (intro exI[of _ "y # ys"]) simp
  next
    assume "?closed n (x # xs) mid0 out0"
    then obtain ys where l: "length ys = length (x # xs)"
      and e: "\<forall>j < length (x # xs). f (n + j) ((x # xs) ! j) = Inr (ys ! j)"
      and m: "mid = mid0 @ map snd (filter (\<lambda>(i, y). i = L) (enumerate n ys))"
      and o: "out = out0 @ map snd (filter (\<lambda>(i, y). i \<noteq> L) (enumerate n ys))" by blast
    from l obtain y ys' where yy: "ys = y # ys'" by (cases ys) auto
    from e have y: "f n x = Inr y" by (auto simp: yy)
    have "\<forall>j < length xs. f (Suc n + j) (xs ! j) = Inr (ys' ! j)"
    proof (intro allI impI)
      fix j assume "j < length xs"
      then have "Suc j < length (x # xs)" by simp
      with e have "f (n + Suc j) ((x # xs) ! Suc j) = Inr (ys ! Suc j)" by blast
      then show "f (Suc n + j) (xs ! j) = Inr (ys' ! j)" by (simp add: yy)
    qed
    with l yy m o have "?closed (Suc n) xs (?mid1 y) (?out1 y)"
      by (intro exI[of _ ys']) simp
    with Cons.IH[of "Suc n" "?mid1 y" "?out1 y"]
    have "?loop (Suc n) xs (?mid1 y) (?out1 y) = Inr (mid, out)" by blast
    with y show "?loop n (x # xs) mid0 out0 = Inr (mid, out)"
      unfolding step by simp
  qed
qed

lemma enumerate_last_split:
  assumes "ys \<noteq> []"
  shows "map snd (filter (\<lambda>(i, y). i = length ys - 1) (enumerate 0 ys)) = [last ys]"
    and "map snd (filter (\<lambda>(i, y). i \<noteq> length ys - 1) (enumerate 0 ys)) = butlast ys"
proof -
  from assms obtain zs z where ys: "ys = zs @ [z]" by (cases ys rule: rev_cases) auto
  have small: "\<forall>p \<in> set (enumerate 0 zs). fst p \<noteq> length zs"
    by (auto simp: in_set_enumerate_eq)
  then have f1: "filter (\<lambda>(i, y). i = length zs) (enumerate 0 zs) = []"
    by (auto simp: filter_empty_conv)
  from small have f2: "filter (\<lambda>(i, y). i \<noteq> length zs) (enumerate 0 zs) = enumerate 0 zs"
    by (auto simp: filter_id_conv)
  show "map snd (filter (\<lambda>(i, y). i = length ys - 1) (enumerate 0 ys)) = [last ys]"
    by (simp add: ys enumerate_append_eq f1)
  show "map snd (filter (\<lambda>(i, y). i \<noteq> length ys - 1) (enumerate 0 ys)) = butlast ys"
    by (simp add: ys enumerate_append_eq f2)
qed

lemma control_merge_own_iff:
  assumes "lo \<noteq> []"
  shows "control_merge_inject ext self (Some li) (Some lo) None dt = Inr own
   \<longleftrightarrow> (\<exists>ins outs.
          length ins = length li
          \<and> (\<forall>i < length li. rescale_layer ext self dt False i (li ! i) = Inr (ins ! i))
          \<and> length outs = length lo
          \<and> (\<forall>i < length lo. rescale_layer ext self dt True i (lo ! i) = Inr (outs ! i))
          \<and> own = \<lparr>c_input = rev ins, c_middle = [last outs], c_output = butlast outs\<rparr>)"
proof -
  have inp: "\<And>r. merge_input_layers ext self dt li = Inr r
     \<longleftrightarrow> (\<exists>ins. length ins = length li
            \<and> (\<forall>i < length li. rescale_layer ext self dt False i (li ! i) = Inr (ins ! i))
            \<and> r = rev ins)"
    unfolding merge_input_layers_def
    using input_loop_iff[of "rescale_layer ext self dt False" 0 li "[]"] by simp
  have outp: "\<And>mid out. merge_output_layers ext self dt lo = Inr (mid, out)
     \<longleftrightarrow> (\<exists>outs. length outs = length lo
            \<and> (\<forall>i < length lo. rescale_layer ext self dt True i (lo ! i) = Inr (outs ! i))
            \<and> mid = [last outs] \<and> out = butlast outs)"
  proof -
    fix mid out
    have "merge_output_layers ext self dt lo = Inr (mid, out)
      \<longleftrightarrow> (\<exists>outs. length outs = length lo
            \<and> (\<forall>i < length lo. rescale_layer ext self dt True i (lo ! i) = Inr (outs ! i))
            \<and> mid = map snd (filter (\<lambda>(i, y). i = length lo - 1) (enumerate 0 outs))
            \<and> out = map snd (filter (\<lambda>(i, y). i \<noteq> length lo - 1) (enumerate 0 outs)))"
      unfolding merge_output_layers_def
      using output_loop_iff[of "rescale_layer ext self dt True" "length lo - 1" 0 lo "[]" "[]" mid out]
      by simp
    also have "\<dots> \<longleftrightarrow> (\<exists>outs. length outs = length lo
            \<and> (\<forall>i < length lo. rescale_layer ext self dt True i (lo ! i) = Inr (outs ! i))
            \<and> mid = [last outs] \<and> out = butlast outs)"
    proof -
      have "\<And>outs :: 'z list. length outs = length lo \<Longrightarrow>
          map snd (filter (\<lambda>(i, y). i = length lo - 1) (enumerate 0 outs)) = [last outs]
          \<and> map snd (filter (\<lambda>(i, y). i \<noteq> length lo - 1) (enumerate 0 outs)) = butlast outs"
      proof -
        fix outs :: "'z list" assume l: "length outs = length lo"
        with assms have "outs \<noteq> []" by auto
        from enumerate_last_split[OF this] l
        show "map snd (filter (\<lambda>(i, y). i = length lo - 1) (enumerate 0 outs)) = [last outs]
          \<and> map snd (filter (\<lambda>(i, y). i \<noteq> length lo - 1) (enumerate 0 outs)) = butlast outs"
          by simp
      qed
      then show ?thesis by metis
    qed
    finally show "merge_output_layers ext self dt lo = Inr (mid, out)
     \<longleftrightarrow> (\<exists>outs. length outs = length lo
            \<and> (\<forall>i < length lo. rescale_layer ext self dt True i (lo ! i) = Inr (outs ! i))
            \<and> mid = [last outs] \<and> out = butlast outs)" .
  qed
  have "control_merge_inject ext self (Some li) (Some lo) None dt = Inr own
    \<longleftrightarrow> (\<exists>inp mid out. merge_input_layers ext self dt li = Inr inp
          \<and> merge_output_layers ext self dt lo = Inr (mid, out)
          \<and> own = \<lparr>c_input = inp, c_middle = mid, c_output = out\<rparr>)"
    by (auto simp: control_merge_inject_def ebind_Inr_iff Let_def)
  also have "\<dots> \<longleftrightarrow> (\<exists>ins outs.
          length ins = length li
          \<and> (\<forall>i < length li. rescale_layer ext self dt False i (li ! i) = Inr (ins ! i))
          \<and> length outs = length lo
          \<and> (\<forall>i < length lo. rescale_layer ext self dt True i (lo ! i) = Inr (outs ! i))
          \<and> own = \<lparr>c_input = rev ins, c_middle = [last outs], c_output = butlast outs\<rparr>)"
    unfolding inp outp by blast
  finally show ?thesis .
qed

lemma rescale_layer_unit_node:
  "i < 13 \<Longrightarrow>
   rescale_layer ext unit_node float32 b i (Some (const_layer c)) = Inr (Some (const_layer c))"
  by (simp add: rescale_layer_def apply_with_own_batched_number_def
      apply_advanced_strengths_and_masks_def apply_latent_keyframes_def apply_masks_def
      apply_keyframe_strength_def unit_node_def ControlWeights_get_def
      ControlWeights_controlnet_def ControlWeights_init_def or_ones_def scale_all_def
      const_layer_def TimestepKeyframe_default_def tensor_to_def)

lemma unit_node_own:
  "control_merge_inject ext unit_node None
     (Some [Some (const_layer a), Some (const_layer b)]) None float32
   = Inr \<lparr>c_input = [], c_middle = [Some (const_layer b)], c_output = [Some (const_layer a)]\<rparr>"
  by (simp add: control_merge_inject_def merge_output_layers_def rescale_layer_unit_node)

lemma merge_prev_const:
  "merge_prev \<lparr>c_input = [], c_middle = [Some (const_layer a)], c_output = [Some (const_layer b)]\<rparr>
     \<lparr>c_input = [], c_middle = [Some (const_layer c)], c_output = [Some (const_layer d)]\<rparr>
   = Inr \<lparr>c_input = [], c_middle = [Some (const_layer (a + c))],
          c_output = [Some (const_layer (b + d))]\<rparr>"
  by (simp add: merge_prev_def merge_prev_list_def merge_prev_step_def tensor_iadd_def
      const_layer_def)

subsection \<open>Accumulation along the chain\<close>

text \<open>
  Claim C1. With a previous chain result, \<open>control_merge_inject\<close> returns a
  structure exactly when its own three lists are computed and each of them merges with
  the list of the previous result entry by entry as the specification says: extra
  entries of the previous list are appended, an absent current entry adopts a present
  previous one, and two present entries are added element-wise. For a chain of three
  nodes of strength 1 and unit weights whose layers are constantly 2, 3 and 5, merged
  from the tail to the head, the merged layers are constantly 10.
\<close>

theorem chain_merge_adds:
  "(control_merge_inject ext self control_input control_output (Some p) dt = Inr merged
    \<longleftrightarrow> (\<exists>own. control_merge_inject ext self control_input control_output None dt = Inr own
           \<and> merged_entries (c_input own) (c_input p) (c_input merged)
           \<and> merged_entries (c_middle own) (c_middle p) (c_middle merged)
           \<and> merged_entries (c_output own) (c_output p) (c_output merged)))
   \<and> ebind (control_merge_inject ext unit_node None
               (Some [Some (const_layer 2), Some (const_layer 2)]) None float32)
        (\<lambda>r1. ebind (control_merge_inject ext unit_node None
                        (Some [Some (const_layer 3), Some (const_layer 3)]) (Some r1) float32)
           (\<lambda>r2. control_merge_inject ext unit_node None
                    (Some [Some (const_layer 5), Some (const_layer 5)]) (Some r2) float32))
     = Inr \<lparr>c_input = [], c_middle = [Some (const_layer 10)],
            c_output = [Some (const_layer 10)]\<rparr>"
proof
  show "control_merge_inject ext self control_input control_output (Some p) dt = Inr merged
    \<longleftrightarrow> (\<exists>own. control_merge_inject ext self control_input control_output None dt = Inr own
           \<and> merged_entries (c_input own) (c_input p) (c_input merged)
           \<and> merged_entries (c_middle own) (c_middle p) (c_middle merged)
           \<and> merged_entries (c_output own) (c_output p) (c_output merged))"
    by (simp add: control_merge_inject_prev ebind_Inr_iff merge_prev_iff)
next
  show "ebind (control_merge_inject ext unit_node None
               (Some [Some (const_layer 2), Some (const_layer 2)]) None float32)
        (\<lambda>r1. ebind (control_merge_inject ext unit_node None
                        (Some [Some (const_layer 3), Some (const_layer 3)]) (Some r1) float32)
           (\<lambda>r2. control_merge_inject ext unit_node None
                    (Some [Some (const_layer 5), Some (const_layer 5)]) (Some r2) float32))
     = Inr \<lparr>c_input = [], c_middle = [Some (const_layer 10)],
            c_output = [Some (const_layer 10)]\<rparr>"
    by (simp add: control_merge_inject_prev unit_node_own merge_prev_const)
qed

theorem chain_merge_adds_witness:
  "control_merge_inject plain_externals unit_node None
     (Some [Some (const_layer 3), Some (const_layer 3)])
     (Some \<lparr>c_input = [], c_middle = [Some (const_layer 2), None],
            c_output = [None, Some (const_layer 2)]\<rparr>) float32
   = Inr \<lparr>c_input = [], c_middle = [Some (const_layer 5), None],
          c_output = [Some (const_layer 3), Some (const_layer 2)]\<rparr>"
proof -
  let ?p = "\<lparr>c_input = [], c_middle = [Some (const_layer 2), None],
            c_output = [None, Some (const_layer 2)]\<rparr>"
  let ?m = "\<lparr>c_input = [], c_middle = [Some (const_layer 5), None],
          c_output = [Some (const_layer 3), Some (const_layer 2)]\<rparr>"
  let ?own = "\<lparr>c_input = [], c_middle = [Some (const_layer 3)],
          c_output = [Some (const_layer 3)]\<rparr>"
  have own: "control_merge_inject plain_externals unit_node None
     (Some [Some (const_layer 3), Some (const_layer 3)]) None float32 = Inr ?own"
    by (rule unit_node_own)
  have i: "merged_entries (c_input ?own) (c_input ?p) (c_input ?m)"
    by (simp add: merged_entries_def)
  have m: "merged_entries (c_middle ?own) (c_middle ?p) (c_middle ?m)"
    by (simp add: merged_entries_def merged_entry_def tensor_iadd_def const_layer_def
        less_Suc_eq numeral_2_eq_2)
  have o: "merged_entries (c_output ?own) (c_output ?p) (c_output ?m)"
    by (simp add: merged_entries_def merged_entry_def less_Suc_eq numeral_2_eq_2)
  from own i m o have "\<exists>own. control_merge_inject plain_externals unit_node None
     (Some [Some (const_layer 3), Some (const_layer 3)]) None float32 = Inr own
           \<and> merged_entries (c_input own) (c_input ?p) (c_input ?m)
           \<and> merged_entries (c_middle own) (c_middle ?p) (c_middle ?m)
           \<and> merged_entries (c_output own) (c_output ?p) (c_output ?m)"
    by blast
  with chain_merge_adds[where ext = plain_externals and self = unit_node
      and control_input = None
      and control_output = "Some [Some (const_layer 3), Some (const_layer 3)]"
      and p = ?p and dt = float32 and merged = ?m]
  show ?thesis by blast
qed

subsection \<open>Where the layers go\<close>

text \<open>
  Claim C3, as the code has it. For a call with a non-empty sequence of output layers:
  the call returns exactly when every layer can be rescaled; then the last output layer,
  rescaled, is the only \<open>middle\<close> entry of the node's own contribution, the other
  output layers are its \<open>output\<close> entries in their order, and its \<open>input\<close>
  list holds the rescaled input layers in reverse order (each layer is inserted at the
  front): entry \<open>i\<close> comes from input layer \<open>n - 1 - i\<close>. Every layer is rescaled
  with the weight of its original position. The result is that contribution, merged
  with the previous result when there is one.
\<close>

theorem merge_classifies_layers:
  "lo \<noteq> [] \<longrightarrow>
   (control_merge_inject ext self (Some li) (Some lo) control_prev dt = Inr merged
    \<longleftrightarrow> (\<exists>ins outs.
          length ins = length li
          \<and> (\<forall>i < length li. rescale_layer ext self dt False i (li ! i) = Inr (ins ! i))
          \<and> length outs = length lo
          \<and> (\<forall>i < length lo. rescale_layer ext self dt True i (lo ! i) = Inr (outs ! i))
          \<and> (case control_prev of
                None \<Rightarrow>
                  merged = \<lparr>c_input = rev ins, c_middle = [last outs], c_output = butlast outs\<rparr>
              | Some p \<Rightarrow>
                  merge_prev \<lparr>c_input = rev ins, c_middle = [last outs], c_output = butlast outs\<rparr> p
                    = Inr merged)))"
proof (intro impI)
  assume lo: "lo \<noteq> []"
  show "control_merge_inject ext self (Some li) (Some lo) control_prev dt = Inr merged
    \<longleftrightarrow> (\<exists>ins outs.
          length ins = length li
          \<and> (\<forall>i < length li. rescale_layer ext self dt False i (li ! i) = Inr (ins ! i))
          \<and> length outs = length lo
          \<and> (\<forall>i < length lo. rescale_layer ext self dt True i (lo ! i) = Inr (outs ! i))
          \<and> (case control_prev of
                None \<Rightarrow>
                  merged = \<lparr>c_input = rev ins, c_middle = [last outs], c_output = butlast outs\<rparr>
              | Some p \<Rightarrow>
                  merge_prev \<lparr>c_input = rev ins, c_middle = [last outs], c_output = butlast outs\<rparr> p
                    = Inr merged))"
  proof (cases control_prev)
    case None
    then show ?thesis using control_merge_own_iff[OF lo, of ext self li dt merged] by simp
  next
    case (Some p)
    have "control_merge_inject ext self (Some li) (Some lo) (Some p) dt = Inr merged
      \<longleftrightarrow> (\<exists>own. control_merge_inject ext self (Some li) (Some lo) None dt = Inr own
                \<and> merge_prev own p = Inr merged)"
      by (simp add: control_merge_inject_prev ebind_Inr_iff)
    also have "\<dots> \<longleftrightarrow> (\<exists>ins outs.
          length ins = length li
          \<and> (\<forall>i < length li. rescale_layer ext self dt False i (li ! i) = Inr (ins ! i))
          \<and> length outs = length lo
          \<and> (\<forall>i < length lo. rescale_layer ext self dt True i (lo ! i) = Inr (outs ! i))
          \<and> merge_prev \<lparr>c_input = rev ins, c_middle = [last outs], c_output = butlast outs\<rparr> p
                    = Inr merged)"
      unfolding control_merge_own_iff[OF lo] by blast
    finally show ?thesis using Some by simp
  qed
qed

theorem merge_classifies_layers_witness:
  "control_merge_inject plain_externals unit_node
     (Some [Some (const_layer 2), Some (const_layer 3)])
     (Some [Some (const_layer 5), Some (const_layer 7)]) None float32
   = Inr \<lparr>c_input = [Some (const_layer 3), Some (const_layer 2)],
          c_middle = [Some (const_layer 7)], c_output = [Some (const_layer 5)]\<rparr>"
proof -
  let ?li = "[Some (const_layer 2), Some (const_layer 3)]"
  let ?lo = "[Some (const_layer 5), Some (const_layer 7)]"
  have lo: "?lo \<noteq> []" by simp
  have "\<exists>ins outs.
          length ins = length ?li
          \<and> (\<forall>i < length ?li. rescale_layer plain_externals unit_node float32 False i (?li ! i)
                = Inr (ins ! i))
          \<and> length outs = length ?lo
          \<and> (\<forall>i < length ?lo. rescale_layer plain_externals unit_node float32 True i (?lo ! i)
                = Inr (outs ! i))
          \<and> (case None :: control option of
                None \<Rightarrow>
                  \<lparr>c_input = [Some (const_layer 3), Some (const_layer 2)],
                   c_middle = [Some (const_layer 7)], c_output = [Some (const_layer 5)]\<rparr>
                  = \<lparr>c_input = rev ins, c_middle = [last outs], c_output = butlast outs\<rparr>
              | Some p \<Rightarrow>
                  merge_prev \<lparr>c_input = rev ins, c_middle = [last outs], c_output = butlast outs\<rparr> p
                    = Inr \<lparr>c_input = [Some (const_layer 3), Some (const_layer 2)],
                   c_middle = [Some (const_layer 7)], c_output = [Some (const_layer 5)]\<rparr>)"
    by (intro exI[of _ ?li] exI[of _ ?lo])
       (simp add: less_Suc_eq rescale_layer_unit_node numeral_2_eq_2)
  with merge_classifies_layers[where lo = ?lo and li = ?li and ext = plain_externals
      and self = unit_node and control_prev = None and dt = float32] lo
  show ?thesis by blast
qed

text \<open>The claim as it was stated has entry \<open>i\<close> of the \<open>input\<close> list come from
  input layer \<open>i\<close>; with two input layers, entry 0 is the second one.\<close>

theorem merge_input_order_counterexample:
  "control_merge_inject plain_externals unit_node
     (Some [Some (const_layer 2), Some (const_layer 3)])
     (Some [Some (const_layer 5)]) None float32
   = Inr \<lparr>c_input = [Some (const_layer 3), Some (const_layer 2)],
          c_middle = [Some (const_layer 5)], c_output = []\<rparr>
   \<and> rescale_layer plain_externals unit_node float32 False 0 (Some (const_layer 2))
       = Inr (Some (const_layer 2))
   \<and> const_layer 3 \<noteq> const_layer 2"
proof -
  have "const_layer 3 \<noteq> const_layer 2" by (simp add: const_layer_def)
  then show ?thesis
    by (simp add: control_merge_inject_def merge_input_layers_def merge_output_layers_def
        rescale_layer_unit_node)
qed

section \<open>Latent keyframe strengths\<close>

subsection \<open>Slot-wise scaling\<close>

lemma scaled_by_length [simp]: "length (scaled_by g d) = length d"
  by (simp add: scaled_by_def)

lemma scaled_by_nth: "k < length d \<Longrightarrow> scaled_by g d ! k = map (\<lambda>v. v * g k) (d ! k)"
  by (simp add: scaled_by_def nth_enumerate_eq)

lemma scaled_by_cong: "(\<And>k. k < length d \<Longrightarrow> g k = h k) \<Longrightarrow> scaled_by g d = scaled_by h d"
  by (rule nth_equalityI) (simp_all add: scaled_by_nth)

lemma scaled_by_comp: "scaled_by g (scaled_by h d) = scaled_by (\<lambda>k. h k * g k) d"
  by (rule nth_equalityI) (simp_all add: scaled_by_nth mult.assoc)

lemma scaled_by_one [simp]: "scaled_by (\<lambda>k. 1) d = d"
  by (rule nth_equalityI) (simp_all add: scaled_by_nth)

lemma list_update_scaled:
  "j < length d \<Longrightarrow> d[j := map (\<lambda>v. v * s) (d ! j)] = scaled_by (\<lambda>i. if i = j then s else 1) d"
  by (rule nth_equalityI) (simp_all add: scaled_by_nth nth_list_update)

lemma scale_slot_in_range:
  "j < length (t_data x) \<Longrightarrow>
   scale_slot x (int j) s
     = Inr (x\<lparr>t_data := scaled_by (\<lambda>i. if i = j then s else 1) (t_data x)\<rparr>)"
  by (simp add: scale_slot_def py_index_def list_update_scaled)

lemma slot_position:
  assumes "(r::nat) < L"
  shows "(k = L * n + r) \<longleftrightarrow> (k mod L = r \<and> k div L = n)"
proof
  assume "k = L * n + r"
  with assms show "k mod L = r \<and> k div L = n" by (simp add: div_mult_self4)
next
  assume "k mod L = r \<and> k div L = n"
  then show "k = L * n + r" using mult_div_mod_eq[of L k] by simp
qed

lemma scale_batched_loop:
  assumes r: "r < L" and len: "length (t_data x) = L * bn"
  shows "n \<le> bn \<Longrightarrow>
    efold (\<lambda>b x'. scale_slot x' (int (L * b) + int r) s) [0..<n] x
      = Inr (x\<lparr>t_data := scaled_by (\<lambda>k. if k mod L = r \<and> k div L < n then s else 1) (t_data x)\<rparr>)"
proof (induction n)
  case 0
  then show ?case by simp
next
  case (Suc n)
  let ?g = "\<lambda>k. if k mod L = r \<and> k div L < n then s else (1::real)"
  let ?xn = "x\<lparr>t_data := scaled_by ?g (t_data x)\<rparr>"
  from Suc have ih: "efold (\<lambda>b x'. scale_slot x' (int (L * b) + int r) s) [0..<n] x = Inr ?xn"
    by simp
  from Suc.prems have "Suc n \<le> bn" by simp
  then have "L * Suc n \<le> L * bn" by (rule mult_le_mono2)
  with r have inr: "L * n + r < length (t_data ?xn)" by (simp add: len)
  have idx: "int (L * n) + int r = int (L * n + r)" by simp
  have step: "scale_slot ?xn (int (L * n) + int r) s
      = Inr (?xn\<lparr>t_data := scaled_by (\<lambda>i. if i = L * n + r then s else 1) (t_data ?xn)\<rparr>)"
    unfolding idx by (rule scale_slot_in_range[OF inr])
  have pw: "\<And>k. ?g k * (if k = L * n + r then s else 1)
              = (if k mod L = r \<and> k div L < Suc n then s else 1)"
    using slot_position[OF r, of _ n] by (auto simp: less_Suc_eq)
  show ?case
    by (simp del: of_nat_mult of_nat_add add: efold_snoc ih step scaled_by_comp pw)
qed

lemma scale_batched_in_range:
  assumes r: "r < L" and len: "length (t_data x) = L * bn"
  shows "scale_batched L bn (int r) s x
      = Inr (x\<lparr>t_data := scaled_by (\<lambda>k. if k mod L = r then s else 1) (t_data x)\<rparr>)"
proof -
  have "\<And>k. k < length (t_data x) \<Longrightarrow>
          (if k mod L = r \<and> k div L < bn then s else 1) = (if k mod L = r then s else (1::real))"
  proof -
    fix k assume "k < length (t_data x)"
    then have "k < bn * L" by (simp add: len mult.commute)
    then have "k div L < bn" by (rule less_mult_imp_div_less)
    then show "(if k mod L = r \<and> k div L < bn then s else 1) = (if k mod L = r then s else (1::real))"
      by simp
  qed
  then have "scaled_by (\<lambda>k. if k mod L = r \<and> k div L < bn then s else 1) (t_data x)
        = scaled_by (\<lambda>k. if k mod L = r then s else 1) (t_data x)"
    by (rule scaled_by_cong)
  with scale_batched_loop[OF r len le_refl, of s] show ?thesis
    by (simp add: scale_batched_def)
qed

subsection \<open>Keyframes that address a slot of the batch\<close>

lemma resolve_index_nat:
  assumes "- int L \<le> lk_batch_index kf" and "lk_batch_index kf < int L"
  shows "\<exists>r < L. resolve_index L kf = int r"
proof -
  from assms have "0 \<le> resolve_index L kf \<and> resolve_index L kf < int L"
    by (simp add: resolve_index_def)
  then have "nat (resolve_index L kf) < L \<and> resolve_index L kf = int (nat (resolve_index L kf))"
    by auto
  then show ?thesis by blast
qed

lemma latent_keyframe_step_in_range:
  assumes sub: "sub_idxs self = None"
    and r: "r < L" "resolve_index L kf = int r"
    and len: "length (t_data x) = L * bn"
  shows "latent_keyframe_step self L bn None kf (x, nulls)
      = Inr (x\<lparr>t_data := scaled_by (\<lambda>k. if int (k mod L) = resolve_index L kf
                                         then lk_strength kf else 1) (t_data x)\<rparr>,
             removeAll (resolve_index L kf) nulls)"
proof -
  have ri: "(if lk_batch_index kf < 0
             then lk_batch_index kf + (if sub_idxs self = None then int L
                                       else full_latent_length self)
             else lk_batch_index kf) = int r"
    using r(2) sub by (simp add: resolve_index_def split: if_splits)
  have rm: "(if int r \<in> set nulls then removeAll (int r) nulls else nulls) = removeAll (int r) nulls"
    by simp
  show ?thesis
    unfolding latent_keyframe_step_def prod.case Let_def ri option.case rm
    by (simp add: scale_batched_in_range[OF r(1) len] r(2))
qed

lemma latent_loop_in_range:
  assumes sub: "sub_idxs self = None"
  shows "(\<forall>kf \<in> set kfs. \<exists>r < L. resolve_index L kf = int r) \<Longrightarrow>
    length (t_data x) = L * bn \<Longrightarrow>
    efold (latent_keyframe_step self L bn None) kfs (x, nulls)
      = Inr (x\<lparr>t_data := scaled_by
                  (\<lambda>k. prod_list (map (\<lambda>kf. if int (k mod L) = resolve_index L kf
                                            then lk_strength kf else 1) kfs)) (t_data x)\<rparr>,
             filter (\<lambda>j. j \<notin> resolve_index L ` set kfs) nulls)"
proof (induction kfs arbitrary: x nulls)
  case Nil
  then show ?case by simp
next
  case (Cons kf kfs)
  let ?g = "\<lambda>k. if int (k mod L) = resolve_index L kf then lk_strength kf else (1::real)"
  let ?x1 = "x\<lparr>t_data := scaled_by ?g (t_data x)\<rparr>"
  from Cons.prems(1) obtain r where r: "r < L" "resolve_index L kf = int r" by auto
  have st: "latent_keyframe_step self L bn None kf (x, nulls)
      = Inr (?x1, removeAll (resolve_index L kf) nulls)"
    by (rule latent_keyframe_step_in_range[OF sub r Cons.prems(2)])
  have len1: "length (t_data ?x1) = L * bn" using Cons.prems(2) by simp
  from Cons.prems(1) have rest: "\<forall>kf \<in> set kfs. \<exists>r < L. resolve_index L kf = int r" by simp
  have fl: "filter (\<lambda>j. j \<notin> resolve_index L ` set kfs) (removeAll (resolve_index L kf) nulls)
            = filter (\<lambda>j. j \<notin> resolve_index L ` set (kf # kfs)) nulls"
    by (induction nulls) auto
  show ?case
    by (simp add: st Cons.IH[OF rest len1] scaled_by_comp fl)
qed

lemma null_slot_scale:
  "current_timestep_keyframe self = Some tk \<Longrightarrow>
   null_slot self x k = scale_slot x k (tk_null_latent_kf_strength tk)"
  by (simp add: null_slot_def scale_slot_def ebind_def split: sum.splits)

lemma null_batched_in_range:
  assumes "current_timestep_keyframe self = Some tk" and "r < L"
    and "length (t_data x) = L * bn"
  shows "null_batched self L bn (int r) x
      = Inr (x\<lparr>t_data := scaled_by (\<lambda>k. if k mod L = r then tk_null_latent_kf_strength tk
                                         else 1) (t_data x)\<rparr>)"
  using scale_batched_in_range[OF assms(2,3), of "tk_null_latent_kf_strength tk"]
  by (simp add: null_batched_def scale_batched_def null_slot_scale[OF assms(1)])

lemma null_loop_in_range:
  assumes tk: "current_timestep_keyframe self = Some tk"
  shows "(\<forall>j \<in> set nulls. \<exists>r < L. j = int r) \<Longrightarrow>
    length (t_data x) = L * bn \<Longrightarrow>
    efold (null_batched self L bn) nulls x
      = Inr (x\<lparr>t_data := scaled_by
                  (\<lambda>k. prod_list (map (\<lambda>j. if int (k mod L) = j
                                           then tk_null_latent_kf_strength tk else 1) nulls))
                  (t_data x)\<rparr>)"
proof (induction nulls arbitrary: x)
  case Nil
  then show ?case by simp
next
  case (Cons j nulls)
  from Cons.prems(1) obtain r where r: "r < L" "j = int r" by auto
  let ?g = "\<lambda>k. if k mod L = r then tk_null_latent_kf_strength tk else (1::real)"
  let ?x1 = "x\<lparr>t_data := scaled_by ?g (t_data x)\<rparr>"
  have st: "null_batched self L bn (int r) x = Inr ?x1"
    by (rule null_batched_in_range[OF tk r(1) Cons.prems(2)])
  have len1: "length (t_data ?x1) = L * bn" using Cons.prems(2) by simp
  from Cons.prems(1) have rest: "\<forall>j \<in> set nulls. \<exists>r < L. j = int r" by simp
  have pw: "\<And>k. (if int (k mod L) = int r then tk_null_latent_kf_strength tk else (1::real))
               = (if k mod L = r then tk_null_latent_kf_strength tk else 1)"
    by simp
  show ?case
    unfolding r(2) by (simp add: st Cons.IH[OF rest len1] scaled_by_comp)
qed

lemma prod_list_if_filter:
  "prod_list (map (\<lambda>a. if P a then f a else (1::real)) xs) = prod_list (map f (filter P xs))"
  by (induction xs) simp_all

lemma prod_list_if_member:
  "distinct ns \<Longrightarrow>
   prod_list (map (\<lambda>j. if m = j then c else (1::real)) ns) = (if m \<in> set ns then c else 1)"
  by (induction ns) auto

lemma total_factor:
  assumes "m < L"
  shows "prod_list (map (\<lambda>kf. if int m = resolve_index L kf then lk_strength kf else 1) kfs)
         * prod_list (map (\<lambda>j. if int m = j then null else 1)
             (filter (\<lambda>j. j \<notin> resolve_index L ` set kfs) (map int [0..<L])))
         = slot_factor kfs null L m"
proof -
  let ?ns = "filter (\<lambda>j. j \<notin> resolve_index L ` set kfs) (map int [0..<L])"
  have d: "distinct ?ns" by (simp add: distinct_map)
  have "int m \<in> set (map int [0..<L])" using assms by simp
  then have mem: "int m \<in> set ?ns \<longleftrightarrow> \<not> (\<exists>kf \<in> set kfs. resolve_index L kf = int m)"
    by (auto simp: image_iff)
  have eq: "(\<lambda>kf. int m = resolve_index L kf) = (\<lambda>kf. resolve_index L kf = int m)"
    by auto
  have N: "prod_list (map (\<lambda>j. if int m = j then null else 1) ?ns)
           = (if int m \<in> set ?ns then null else 1)"
    by (rule prod_list_if_member[OF d])
  have G: "prod_list (map (\<lambda>kf. if int m = resolve_index L kf then lk_strength kf else 1) kfs)
           = prod_list (map lk_strength (filter (\<lambda>kf. resolve_index L kf = int m) kfs))"
    unfolding prod_list_if_filter eq ..
  show ?thesis
  proof (cases "\<exists>kf \<in> set kfs. resolve_index L kf = int m")
    case True
    with mem have "int m \<notin> set ?ns" by blast
    then have n1: "(if int m \<in> set ?ns then null else 1) = 1" by (rule if_not_P)
    have s1: "slot_factor kfs null L m
        = prod_list (map lk_strength (filter (\<lambda>kf. resolve_index L kf = int m) kfs))"
      unfolding slot_factor_def using True by (rule if_P)
    show ?thesis
      unfolding N G n1 s1 by (rule mult_1_right)
  next
    case False
    then have e: "filter (\<lambda>kf. resolve_index L kf = int m) kfs = []"
      by (auto simp: filter_empty_conv)
    from False mem have "int m \<in> set ?ns" by blast
    then have n1: "(if int m \<in> set ?ns then null else 1) = null" by (rule if_P)
    have s1: "slot_factor kfs null L m = null"
      unfolding slot_factor_def using False by (rule if_not_P)
    show ?thesis
      unfolding N G n1 s1 e by simp
  qed
qed

lemma apply_latent_keyframes_in_range:
  assumes kfs: "latent_keyframes self = Some kfs" and sub: "sub_idxs self = None"
    and tk: "current_timestep_keyframe self = Some tk"
    and bn: "0 < bn" and len: "length (t_data x) = L * bn"
    and rng: "\<forall>kf \<in> set kfs. - int L \<le> lk_batch_index kf \<and> lk_batch_index kf < int L"
  shows "apply_latent_keyframes self x bn
      = Inr (x\<lparr>t_data := scaled_by
                 (\<lambda>k. slot_factor kfs (tk_null_latent_kf_strength tk) L (k mod L)) (t_data x)\<rparr>)"
proof (cases "L = 0")
  case True
  with len have "t_data x = []" by simp
  then have e: "x\<lparr>t_data := scaled_by
                 (\<lambda>k. slot_factor kfs (tk_null_latent_kf_strength tk) L (k mod L)) (t_data x)\<rparr> = x"
    by (simp add: scaled_by_def)
  from True rng have "kfs = []" by (cases kfs) auto
  with True bn kfs sub show ?thesis
    unfolding e by (simp add: apply_latent_keyframes_def \<open>t_data x = []\<close>)
next
  case False
  let ?null = "tk_null_latent_kf_strength tk"
  let ?G = "\<lambda>k. prod_list (map (\<lambda>kf. if int (k mod L) = resolve_index L kf
                                            then lk_strength kf else 1) kfs)"
  let ?ns = "filter (\<lambda>j. j \<notin> resolve_index L ` set kfs) (map int [0..<L])"
  let ?N = "\<lambda>k. prod_list (map (\<lambda>j. if int (k mod L) = j then ?null else 1) ?ns)"
  let ?x1 = "x\<lparr>t_data := scaled_by ?G (t_data x)\<rparr>"
  from bn len have lc: "length (t_data x) div bn = L" by simp
  from rng have r: "\<forall>kf \<in> set kfs. \<exists>r < L. resolve_index L kf = int r"
    using resolve_index_nat by blast
  have l1: "efold (latent_keyframe_step self L bn None) kfs (x, map int [0..<L]) = Inr (?x1, ?ns)"
    by (rule latent_loop_in_range[OF sub r len])
  have nr: "\<forall>j \<in> set ?ns. \<exists>r < L. j = int r" by auto
  have len1: "length (t_data ?x1) = L * bn" using len by simp
  have l2: "efold (null_batched self L bn) ?ns ?x1
      = Inr (?x1\<lparr>t_data := scaled_by ?N (t_data ?x1)\<rparr>)"
    by (rule null_loop_in_range[OF tk nr len1])
  have f: "\<And>k. ?G k * ?N k = slot_factor kfs ?null L (k mod L)"
    using False by (intro total_factor) simp
  show ?thesis
    using bn by (simp add: apply_latent_keyframes_def kfs sub lc l1 l2 scaled_by_comp f)
qed

text \<open>
  When every keyframe of the resolved group addresses a slot of the batch (batch index
  from minus the number of latents up to, but not including, the number of latents), no
  subset indices and no masks are set, and the tensor holds \<open>bn\<close> sub-batches of
  \<open>L\<close> latents, then in every sub-batch slot \<open>j\<close> is multiplied by the strengths
  of the keyframes that address it, or by \<open>null_latent_kf_strength\<close> of the active
  keyframe when none does, and then by the strength of the active keyframe.
\<close>

lemma latent_strengths_in_range:
  assumes kfs: "latent_keyframes self = Some kfs" and sub: "sub_idxs self = None"
    and tk: "current_timestep_keyframe self = Some tk"
    and masks: "mask_cond_hint self = None" "tk_mask_cond_hint self = None"
    and bn: "0 < bn" and len: "length (t_data x) = L * bn"
    and rng: "\<forall>kf \<in> set kfs. - int L \<le> lk_batch_index kf \<and> lk_batch_index kf < int L"
  shows "\<exists>x'. apply_advanced_strengths_and_masks ext self x bn = Inr x'
           \<and> t_dtype x' = t_dtype x \<and> length (t_data x') = length (t_data x)
           \<and> (\<forall>b < bn. \<forall>j < L.
                 t_data x' ! (L * b + j)
                   = map (\<lambda>v. v * slot_factor kfs (tk_null_latent_kf_strength tk) L j
                                 * tk_strength tk)
                       (t_data x ! (L * b + j)))"
proof -
  let ?F = "\<lambda>k. slot_factor kfs (tk_null_latent_kf_strength tk) L (k mod L)"
  let ?x1 = "x\<lparr>t_data := scaled_by ?F (t_data x)\<rparr>"
  let ?x2 = "if tk_strength tk \<noteq> 1 then scale_all ?x1 (tk_strength tk) else ?x1"
  have l: "apply_latent_keyframes self x bn = Inr ?x1"
    by (rule apply_latent_keyframes_in_range[OF kfs sub tk bn len rng])
  have r: "apply_advanced_strengths_and_masks ext self x bn = Inr ?x2"
    by (simp add: apply_advanced_strengths_and_masks_def l apply_masks_def masks
        apply_keyframe_strength_def tk)
  have d: "t_dtype ?x2 = t_dtype x" by (simp add: scale_all_def)
  have n: "length (t_data ?x2) = length (t_data x)" by (simp add: scale_all_def)
  have e: "\<forall>b < bn. \<forall>j < L.
                 t_data ?x2 ! (L * b + j)
                   = map (\<lambda>v. v * slot_factor kfs (tk_null_latent_kf_strength tk) L j
                                 * tk_strength tk)
                       (t_data x ! (L * b + j))"
  proof (intro allI impI)
    fix b j assume b: "b < bn" and j: "j < L"
    from b have "Suc b \<le> bn" by simp
    then have "L * Suc b \<le> L * bn" by (rule mult_le_mono2)
    with j have k: "L * b + j < length (t_data x)" by (simp add: len)
    from j have m: "(L * b + j) mod L = j" by simp
    show "t_data ?x2 ! (L * b + j)
                   = map (\<lambda>v. v * slot_factor kfs (tk_null_latent_kf_strength tk) L j
                                 * tk_strength tk)
                       (t_data x ! (L * b + j))"
      using k j by (simp add: scale_all_def scaled_by_nth)
  qed
  from r d n e show ?thesis by blast
qed

subsection \<open>The examples of the specification\<close>

lemma upt4: "[0..<4] = [0, 1, 2, 3::nat]" by code_simp
lemma upt1: "[0..<1] = [0::nat]" by code_simp

lemmas latent_eval =
  apply_advanced_strengths_and_masks_def apply_latent_keyframes_def apply_masks_def
  apply_keyframe_strength_def latent_keyframe_step_def scale_batched_def null_batched_def
  null_slot_def scale_slot_def py_index_def latent_node_def unit_node_def four_latents_def
  TimestepKeyframe_default_def upt4 upt1 atLeastLessThanSuc Let_def

lemma spec_example:
  "apply_advanced_strengths_and_masks ext
     (latent_node [\<lparr>lk_batch_index = 0, lk_strength = 2\<rparr>,
                   \<lparr>lk_batch_index = 2, lk_strength = 1/2\<rparr>] 0) four_latents 1
   = Inr \<lparr>t_dtype = float32, t_data = [[2], [0], [1/2], [0]]\<rparr>"
  by (simp add: latent_eval)

lemma negative_example:
  "apply_advanced_strengths_and_masks ext
     (latent_node [\<lparr>lk_batch_index = - 1, lk_strength = 3\<rparr>] 1) four_latents 1
   = Inr \<lparr>t_dtype = float32, t_data = [[1], [1], [1], [3]]\<rparr>"
  by (simp add: latent_eval)

subsection \<open>A keyframe outside the batch\<close>

text \<open>
  Claim C6 says that for every batch a slot is multiplied by the strength of a keyframe
  exactly when its batch index is in the group, and by the null strength otherwise. The
  code does so for keyframes that address a slot of the batch (the lemma and the two
  examples above). For a keyframe outside the batch it does not: without subset
  indices the resolved index is only guarded where it is taken out of the set, and the
  strength is applied to \<^verbatim>\<open>x[latent_count*b + real_index]\<close> all the same. In a
  batch of four latents a keyframe with batch index 5 and strength 2 makes the call
  raise \<^verbatim>\<open>IndexError\<close>, and a keyframe with batch index \<open>-5\<close> doubles slot 3,
  which no keyframe addresses (null strength 1).
\<close>

theorem latent_index_out_of_range:
  "apply_advanced_strengths_and_masks ext
     (latent_node [\<lparr>lk_batch_index = 5, lk_strength = 2\<rparr>] 0) four_latents 1
   = Inl IndexError
   \<and> apply_advanced_strengths_and_masks ext
     (latent_node [\<lparr>lk_batch_index = - 5, lk_strength = 2\<rparr>] 1) four_latents 1
   = Inr \<lparr>t_dtype = float32, t_data = [[1], [1], [1], [2]]\<rparr>"
  by (simp add: latent_eval)

section \<open>Cloning a keyframe group\<close>

subsection \<open>The invariant of a group under \<open>add\<close>\<close>

lemma add_scan_keys:
  "map key (fst (add_scan key k ks)) = map key ks"
  by (induction ks) (auto split: prod.splits)

lemma add_scan_set_found:
  "distinct (map key ks) \<Longrightarrow> \<exists>x \<in> set ks. key x = key k \<Longrightarrow>
   set (fst (add_scan key k ks)) = insert k {x \<in> set ks. key x \<noteq> key k}"
proof (induction ks)
  case Nil
  then show ?case by simp
next
  case (Cons x xs)
  show ?case
  proof (cases "key x = key k")
    case True
    from Cons.prems(1) have "key x \<notin> key ` set xs" by simp
    with True have "\<forall>y \<in> set xs. key y \<noteq> key k" by (metis image_eqI)
    then have "{y \<in> set (x # xs). key y \<noteq> key k} = set xs"
      using True by auto
    then show ?thesis
      using True by simp
  next
    case False
    with Cons.prems have "\<exists>y \<in> set xs. key y = key k" "distinct (map key xs)" by auto
    from Cons.IH[OF this(2,1)]
    have ih: "set (fst (add_scan key k xs)) = insert k {y \<in> set xs. key y \<noteq> key k}" .
    have f: "fst (add_scan key k (x # xs)) = x # fst (add_scan key k xs)"
      using False by (simp split: prod.splits)
    have "{y \<in> set (x # xs). key y \<noteq> key k} = insert x {y \<in> set xs. key y \<noteq> key k}"
      using False by auto
    then show ?thesis
      unfolding f by (simp add: ih insert_commute)
  qed
qed

lemma group_inv_iff: "group_inv key ks \<longleftrightarrow> sorted (map key ks) \<and> distinct (map key ks)"
  by (simp add: group_inv_def strict_sorted_iff)

lemma distinct_keys_sort: "distinct (map key (sort_key key l)) \<longleftrightarrow> distinct (map key l)"
proof -
  have "mset (map key (sort_key key l)) = mset (map key l)" by simp
  then show ?thesis by (rule mset_eq_imp_distinct_iff)
qed

lemma group_add_inv:
  assumes "group_inv key ks"
  shows "group_inv key (group_add key k ks)"
    and "set (group_add key k ks) = insert k {x \<in> set ks. key x \<noteq> key k}"
proof -
  obtain ys added where s: "add_scan key k ks = (ys, added)" by (cases "add_scan key k ks")
  from assms have d: "distinct (map key ks)" by (simp add: group_inv_iff)
  from add_scan_added[of key k ks] s have a: "added \<longleftrightarrow> (\<exists>x \<in> set ks. key x = key k)" by simp
  from add_scan_keys[of key k ks] s have k: "map key ys = map key ks" by simp
  let ?l = "if \<not> added then ys @ [k] else ys"
  have dl: "distinct (map key ?l)"
  proof (cases added)
    case True
    with d k show ?thesis by simp
  next
    case False
    with a have "key k \<notin> key ` set ks" by auto
    with False d k show ?thesis by simp
  qed
  have sl: "set ?l = insert k {x \<in> set ks. key x \<noteq> key k}"
  proof (cases added)
    case True
    with a add_scan_set_found[OF d, of k] s show ?thesis by simp
  next
    case False
    with a have "find (\<lambda>x. key x = key k) ks = None" by (auto simp: find_None_iff)
    from add_scan_not_found[OF this] s have "ys = ks" by simp
    with False a show ?thesis by auto
  qed
  have g: "group_add key k ks = sort_key key ?l" by (simp add: group_add_def s)
  show "group_inv key (group_add key k ks)"
    unfolding g group_inv_iff using dl by (simp add: distinct_keys_sort)
  show "set (group_add key k ks) = insert k {x \<in> set ks. key x \<noteq> key k}"
    unfolding g using sl by simp
qed

lemma fold_group_add:
  "group_inv key acc \<Longrightarrow> distinct (map key xs) \<Longrightarrow>
   group_inv key (fold (group_add key) xs acc)
   \<and> set (fold (group_add key) xs acc) = set xs \<union> {a \<in> set acc. key a \<notin> key ` set xs}"
proof (induction xs arbitrary: acc)
  case Nil
  then show ?case by simp
next
  case (Cons x xs)
  from group_add_inv[OF Cons.prems(1), of x]
  have i: "group_inv key (group_add key x acc)"
    and s: "set (group_add key x acc) = insert x {a \<in> set acc. key a \<noteq> key x}" by simp_all
  from Cons.prems(2) have d: "distinct (map key xs)" and nx: "key x \<notin> key ` set xs" by simp_all
  from Cons.IH[OF i d] s nx show ?case by auto
qed

lemma group_inv_unique:
  assumes "group_inv key xs" and "group_inv key ys" and "set xs = set ys"
  shows "xs = ys"
proof -
  from assms(1,2) have sx: "sorted_wrt (<) (map key xs)" and sy: "sorted_wrt (<) (map key ys)"
    by (simp_all add: group_inv_def)
  from assms(3) have "set (map key ys) = set (map key xs)" by simp
  from strict_sorted_equal[OF sx sy this] have m: "map key xs = map key ys" by simp
  from assms(1) have "distinct (map key xs)" by (simp add: group_inv_iff)
  then have "inj_on key (set xs)" by (simp add: distinct_map)
  with assms(3) have "inj_on key (set xs \<union> set ys)" by simp
  from inj_on_map_eq_map[OF this] m show ?thesis by simp
qed

lemma fold_group_add_same:
  assumes "group_inv key xs" and "group_inv key acc"
    and "\<forall>a \<in> set acc. key a \<in> key ` set xs"
  shows "fold (group_add key) xs acc = xs"
proof -
  from assms(1) have d: "distinct (map key xs)" by (simp add: group_inv_iff)
  from fold_group_add[OF assms(2) d] assms(3)
  have "group_inv key (fold (group_add key) xs acc)"
    and "set (fold (group_add key) xs acc) = set xs" by auto
  with assms(1) show ?thesis by (intro group_inv_unique[of key]) simp_all
qed

lemma fold_obj_add:
  "fold (\<lambda>r h'. obj_add key c r h') xs h
     = h\<lparr>group_keyframes := (group_keyframes h)
           (c := fold (group_add (\<lambda>a. key (keyframe_at h a))) xs (group_keyframes h c))\<rparr>"
proof (induction xs arbitrary: h)
  case Nil
  then show ?case by simp
next
  case (Cons x xs)
  have "fold (\<lambda>r h'. obj_add key c r h') (x # xs) h
          = fold (\<lambda>r h'. obj_add key c r h') xs (obj_add key c x h)" by simp
  also have "\<dots> = (obj_add key c x h)\<lparr>group_keyframes := (group_keyframes (obj_add key c x h))
           (c := fold (group_add (\<lambda>a. key (keyframe_at (obj_add key c x h) a))) xs
                   (group_keyframes (obj_add key c x h) c))\<rparr>"
    by (rule Cons.IH)
  also have "\<dots> = h\<lparr>group_keyframes := (group_keyframes h)
           (c := fold (group_add (\<lambda>a. key (keyframe_at h a))) (x # xs) (group_keyframes h c))\<rparr>"
    by (simp add: obj_add_def)
  finally show ?case .
qed

subsection \<open>What a clone is\<close>

lemma latent_clone_same:
  assumes inv: "group_inv (\<lambda>a. lk_batch_index (keyframe_at h a)) (group_keyframes h g)"
    and g: "g < next_group h"
  shows "LatentKeyframeGroup_clone g h
     = (h\<lparr>group_keyframes := (group_keyframes h)(next_group h := group_keyframes h g),
          next_group := Suc (next_group h)\<rparr>, next_group h)"
proof -
  let ?K = "\<lambda>a. lk_batch_index (keyframe_at h a)"
  have e: "group_inv ?K []" by (simp add: group_inv_def)
  have f: "fold (group_add ?K) (group_keyframes h g) [] = group_keyframes h g"
    by (rule fold_group_add_same[OF inv e]) simp
  show ?thesis
    by (simp add: LatentKeyframeGroup_clone_def new_group_def fold_obj_add f)
qed

lemma timestep_clone_same:
  assumes inv: "group_inv (\<lambda>a. tk_start_percent (keyframe_at h a)) (group_keyframes h g)"
    and g: "g < next_group h"
    and old: "\<forall>a \<in> set (group_keyframes h g). a < next_keyframe h"
    and zero: "\<exists>a \<in> set (group_keyframes h g). tk_start_percent (keyframe_at h a) = 0"
  shows "TimestepKeyframeGroup_clone g h
     = (h\<lparr>keyframe_at := (keyframe_at h)(next_keyframe h := TimestepKeyframe_default),
          next_keyframe := Suc (next_keyframe h),
          next_group := Suc (next_group h),
          group_keyframes := (group_keyframes h)(next_group h := group_keyframes h g)\<rparr>,
        next_group h)"
proof -
  let ?d = "next_keyframe h"
  let ?K = "\<lambda>a. tk_start_percent (keyframe_at h a)"
  let ?Kd = "\<lambda>a. tk_start_percent (((keyframe_at h)(?d := TimestepKeyframe_default)) a)"
  have same: "\<forall>a \<in> set (group_keyframes h g). ?Kd a = ?K a" using old by auto
  then have m: "map ?Kd (group_keyframes h g) = map ?K (group_keyframes h g)" by simp
  from inv have sk: "sorted_wrt (<) (map ?K (group_keyframes h g))" by (simp only: group_inv_def)
  have "sorted_wrt (<) (map ?Kd (group_keyframes h g))" by (subst m) (rule sk)
  then have inv0: "group_inv ?Kd (group_keyframes h g)" by (simp only: group_inv_def)
  have e: "group_inv ?Kd [?d]" by (simp add: group_inv_def)
  from zero same have "?Kd ?d \<in> ?Kd ` set (group_keyframes h g)"
    by (auto simp: TimestepKeyframe_default_def image_iff)
  then have "\<forall>a \<in> set [?d]. ?Kd a \<in> ?Kd ` set (group_keyframes h g)" by simp
  from fold_group_add_same[OF inv0 e this]
  have f: "fold (group_add ?Kd) (group_keyframes h g) [?d] = group_keyframes h g" .
  show ?thesis
    by (simp add: TimestepKeyframeGroup_clone_def new_group_def new_keyframe_def fold_obj_add
        fun_upd_same f
        del: fun_upd_apply)
qed

lemma one_latent_store_inv:
  "group_inv (\<lambda>a. lk_batch_index (keyframe_at one_latent_store a))
     (group_keyframes one_latent_store 0) \<and> 0 < next_group one_latent_store"
  by (simp add: group_inv_def one_latent_store_def)

lemma one_timestep_store_inv:
  "group_inv (\<lambda>a. tk_start_percent (keyframe_at one_timestep_store a))
     (group_keyframes one_timestep_store 0)
   \<and> 0 < next_group one_timestep_store
   \<and> (\<forall>a \<in> set (group_keyframes one_timestep_store 0). a < next_keyframe one_timestep_store)
   \<and> (\<exists>a \<in> set (group_keyframes one_timestep_store 0).
         tk_start_percent (keyframe_at one_timestep_store a) = 0)"
  by (simp add: group_inv_def one_timestep_store_def TimestepKeyframe_default_def)

text \<open>
  Claim C7, as the code has it. \<open>clone\<close> makes a new group object and adds the
  keyframe objects of the original to it. For a latent group that is sorted with one
  entry per batch index, and for a timestep group that is sorted with one entry per
  start percent, among them one at start percent 0, the clone is another group object
  whose list holds the same keyframe objects in the same order, so that it has the same
  keys and values as the original at that moment; the list of the original and the
  keyframe objects it refers to are as before. The two lists are independent: an
  \<open>add\<close> on the clone leaves the list of the original unchanged. The entries are
  not copied: both lists refer to the same keyframe objects.
\<close>

theorem clone_shares_keyframes:
  "(group_inv (\<lambda>a. lk_batch_index (keyframe_at h a)) (group_keyframes h g) \<and> g < next_group h
      \<longrightarrow>
      (case LatentKeyframeGroup_clone g h of
         (h', cloned) \<Rightarrow>
           cloned \<noteq> g
           \<and> group_keyframes h' cloned = group_keyframes h g
           \<and> entries h' cloned = entries h g
           \<and> group_keyframes h' g = group_keyframes h g
           \<and> keyframe_at h' = keyframe_at h
           \<and> (\<forall>r. group_keyframes (obj_add lk_batch_index cloned r h') g = group_keyframes h g
                  \<and> keyframe_at (obj_add lk_batch_index cloned r h') = keyframe_at h)))
   \<and> (group_inv (\<lambda>a. tk_start_percent (keyframe_at ht a)) (group_keyframes ht gt)
        \<and> gt < next_group ht
        \<and> (\<forall>a \<in> set (group_keyframes ht gt). a < next_keyframe ht)
        \<and> (\<exists>a \<in> set (group_keyframes ht gt). tk_start_percent (keyframe_at ht a) = 0)
      \<longrightarrow>
      (case TimestepKeyframeGroup_clone gt ht of
         (h', cloned) \<Rightarrow>
           cloned \<noteq> gt
           \<and> group_keyframes h' cloned = group_keyframes ht gt
           \<and> entries h' cloned = entries ht gt
           \<and> group_keyframes h' gt = group_keyframes ht gt
           \<and> (\<forall>a < next_keyframe ht. keyframe_at h' a = keyframe_at ht a)
           \<and> (\<forall>r. group_keyframes (obj_add tk_start_percent cloned r h') gt
                    = group_keyframes ht gt)))"
proof (intro conjI impI)
  assume a: "group_inv (\<lambda>a. lk_batch_index (keyframe_at h a)) (group_keyframes h g)
             \<and> g < next_group h"
  then have c: "LatentKeyframeGroup_clone g h
     = (h\<lparr>group_keyframes := (group_keyframes h)(next_group h := group_keyframes h g),
          next_group := Suc (next_group h)\<rparr>, next_group h)"
    by (intro latent_clone_same) simp_all
  from a show "case LatentKeyframeGroup_clone g h of
         (h', cloned) \<Rightarrow>
           cloned \<noteq> g
           \<and> group_keyframes h' cloned = group_keyframes h g
           \<and> entries h' cloned = entries h g
           \<and> group_keyframes h' g = group_keyframes h g
           \<and> keyframe_at h' = keyframe_at h
           \<and> (\<forall>r. group_keyframes (obj_add lk_batch_index cloned r h') g = group_keyframes h g
                  \<and> keyframe_at (obj_add lk_batch_index cloned r h') = keyframe_at h)"
    unfolding c by (simp add: entries_def obj_add_def)
next
  assume a: "group_inv (\<lambda>a. tk_start_percent (keyframe_at ht a)) (group_keyframes ht gt)
        \<and> gt < next_group ht
        \<and> (\<forall>a \<in> set (group_keyframes ht gt). a < next_keyframe ht)
        \<and> (\<exists>a \<in> set (group_keyframes ht gt). tk_start_percent (keyframe_at ht a) = 0)"
  then have c: "TimestepKeyframeGroup_clone gt ht
     = (ht\<lparr>keyframe_at := (keyframe_at ht)(next_keyframe ht := TimestepKeyframe_default),
          next_keyframe := Suc (next_keyframe ht),
          next_group := Suc (next_group ht),
          group_keyframes := (group_keyframes ht)(next_group ht := group_keyframes ht gt)\<rparr>,
        next_group ht)"
    by (intro timestep_clone_same) simp_all
  from a have old: "\<forall>a \<in> set (group_keyframes ht gt). a \<noteq> next_keyframe ht" by auto
  from a old show "case TimestepKeyframeGroup_clone gt ht of
         (h', cloned) \<Rightarrow>
           cloned \<noteq> gt
           \<and> group_keyframes h' cloned = group_keyframes ht gt
           \<and> entries h' cloned = entries ht gt
           \<and> group_keyframes h' gt = group_keyframes ht gt
           \<and> (\<forall>a < next_keyframe ht. keyframe_at h' a = keyframe_at ht a)
           \<and> (\<forall>r. group_keyframes (obj_add tk_start_percent cloned r h') gt
                    = group_keyframes ht gt)"
    unfolding c by (simp add: entries_def obj_add_def)
qed

theorem clone_shares_keyframes_witness:
  "(case LatentKeyframeGroup_clone 0 one_latent_store of
      (h', cloned) \<Rightarrow>
        cloned \<noteq> 0 \<and> entries h' cloned = [\<lparr>lk_batch_index = 0, lk_strength = 1\<rparr>]
        \<and> entries h' 0 = [\<lparr>lk_batch_index = 0, lk_strength = 1\<rparr>])
   \<and> (case TimestepKeyframeGroup_clone 0 one_timestep_store of
      (h', cloned) \<Rightarrow>
        cloned \<noteq> 0 \<and> entries h' cloned = [TimestepKeyframe_default\<lparr>tk_strength := 2\<rparr>])"
proof -
  have e1: "entries one_latent_store 0 = [\<lparr>lk_batch_index = 0, lk_strength = 1\<rparr>]"
    by (simp add: entries_def one_latent_store_def)
  have e2: "entries one_timestep_store 0 = [TimestepKeyframe_default\<lparr>tk_strength := 2\<rparr>]"
    by (simp add: entries_def one_timestep_store_def)
  note t = clone_shares_keyframes[where h = one_latent_store and g = 0
      and ht = one_timestep_store and gt = 0]
  note l = t[THEN conjunct1, THEN mp, OF one_latent_store_inv]
  note r = t[THEN conjunct2, THEN mp, OF one_timestep_store_inv]
  obtain h1 c1 where c1: "LatentKeyframeGroup_clone 0 one_latent_store = (h1, c1)"
    by (cases "LatentKeyframeGroup_clone 0 one_latent_store")
  obtain h2 c2 where c2: "TimestepKeyframeGroup_clone 0 one_timestep_store = (h2, c2)"
    by (cases "TimestepKeyframeGroup_clone 0 one_timestep_store")
  from l have l1: "c1 \<noteq> 0" "entries h1 c1 = entries one_latent_store 0"
    "group_keyframes h1 0 = group_keyframes one_latent_store 0"
    "keyframe_at h1 = keyframe_at one_latent_store"
    unfolding c1 prod.case by blast+
  from r have r1: "c2 \<noteq> 0" "entries h2 c2 = entries one_timestep_store 0"
    unfolding c2 prod.case by blast+
  from l1(3,4) have "entries h1 0 = entries one_latent_store 0"
    by (simp add: entries_def)
  with l1 r1 show ?thesis
    unfolding c1 c2 prod.case e1 e2 by simp
qed

text \<open>The claim as it was stated has the entries of the clone independent of the
  original's. Assigning strength 5 to the entry of the clone of a group of one
  keyframe of strength 1 changes the strength that the original group reads.\<close>

theorem clone_entries_shared_counterexample:
  "lk_strength (entry one_latent_store 0 0) = 1
   \<and> snd (LatentKeyframeGroup_clone 0 one_latent_store) \<noteq> 0
   \<and> lk_strength
       (entry (set_entry_strength (snd (LatentKeyframeGroup_clone 0 one_latent_store)) 0 5
                 (fst (LatentKeyframeGroup_clone 0 one_latent_store))) 0 0) = 5"
  by (simp add: LatentKeyframeGroup_clone_def new_group_def obj_add_def group_add_def
      one_latent_store_def set_entry_strength_def entry_def)

text \<open>A timestep group without a keyframe at start percent 0 is outside the theorem:
  its clone keeps the default keyframe that every new timestep group starts with, and
  has one entry more than the original.\<close>

lemma timestep_clone_keeps_seed:
  "entries late_timestep_store 0 = [TimestepKeyframe_default\<lparr>tk_start_percent := 1/2\<rparr>]
   \<and> entries (fst (TimestepKeyframeGroup_clone 0 late_timestep_store))
         (snd (TimestepKeyframeGroup_clone 0 late_timestep_store))
       = [TimestepKeyframe_default, TimestepKeyframe_default\<lparr>tk_start_percent := 1/2\<rparr>]"
  by (simp add: TimestepKeyframeGroup_clone_def new_group_def new_keyframe_def obj_add_def
      group_add_def late_timestep_store_def entries_def TimestepKeyframe_default_def)

end
